theory Spec2Isabelle
  imports Complex_Main "HOL-Library.List_Lexorder" "HOL-Library.Code_Target_Nat" "HOL-Library.Log_Nat"
begin

section \<open>The persisted state of \<open>ipam_database.py\<close>\<close>

text \<open>
  \<open>IPAMDatabase.init_database\<close> creates three tables. A table is modelled as the list of
  its rows in rowid order, a row as a record with one field per column. A column that
  can hold SQL \<open>NULL\<close> is an \<open>option\<close>. The \<open>status\<close> column carries the constraint
  \<open>CHECK (status IN ('free', 'used', 'reserved'))\<close> and every statement of the module
  writes one of these three literals, so it is a datatype with three constructors.
  Strings are HOL strings: lists of 8-bit characters. Text outside ASCII (the Chinese
  labels of the source) is its UTF-8 byte sequence.
\<close>

datatype ip_status = Free | Used | Reserved

type_synonym timestamp = string

record subnet_row =
  s_id :: nat
  subnet_cidr :: string
  description :: string
  gateway :: string
  dns_server :: string
  created_at :: timestamp

record ip_row =
  ip_id :: nat
  ip_address :: string
  subnet_id :: "nat option"
  status :: ip_status
  allocated_to :: "string option"
  mac_address :: "string option"
  device_type :: "string option"
  allocated_at :: "timestamp option"
  ip_notes :: "string option"
  last_updated :: timestamp

record history_row =
  h_id :: nat
  h_ip_address :: string
  action :: string
  old_status :: ip_status
  new_status :: ip_status
  changed_by :: string
  h_notes :: string
  changed_at :: timestamp

text \<open>
  The three \<open>id\<close> columns are \<open>INTEGER PRIMARY KEY AUTOINCREMENT\<close>: SQLite keeps the
  largest rowid ever handed out per table (table \<open>sqlite_sequence\<close>) and gives the next
  row that number plus one. The three counters are part of the database, so a
  transaction that is rolled back rolls them back as well.
\<close>

record database =
  subnets :: "subnet_row list"
  ip_addresses :: "ip_row list"
  ip_history :: "history_row list"
  subnets_seq :: nat
  ip_addresses_seq :: nat
  ip_history_seq :: nat

definition empty_database :: database where
  "empty_database = \<lparr>subnets = [], ip_addresses = [], ip_history = [],
     subnets_seq = 0, ip_addresses_seq = 0, ip_history_seq = 0\<rparr>"

text \<open>
  Two clocks are read by the module: \<open>datetime.now().strftime("%Y-%m-%d %H:%M:%S")\<close>
  (local time, written to \<open>allocated_at\<close>) and SQLite's \<open>CURRENT_TIMESTAMP\<close> (UTC, written
  to \<open>last_updated\<close>, \<open>created_at\<close> and \<open>changed_at\<close>). Both readings are inputs of every
  operation.
\<close>

record clock =
  datetime_now :: timestamp
  current_timestamp :: timestamp

text \<open>
  Every method returns a pair \<open>(False, message)\<close> or \<open>(True, message)\<close>. The failure
  messages of the module are one constructor each:
  \<^item> \<open>NotFoundError\<close>: \<open>"IP ... does not exist"\<close> (\<open>allocate_ip\<close>, \<open>release_ip\<close>);
  \<^item> \<open>InvalidTransitionError st\<close>: \<open>"IP ... has status st, cannot allocate"\<close>;
  \<^item> \<open>DuplicateError\<close>: \<open>"subnet ... already exists"\<close>;
  \<^item> \<open>ValidationError\<close>: the \<open>except ValueError\<close> clause of \<open>create_subnet\<close>;
  \<^item> \<open>IntegrityError\<close>: the \<open>except sqlite3.IntegrityError\<close> clause of \<open>create_subnet\<close>.
\<close>

datatype error =
    NotFoundError
  | InvalidTransitionError ip_status
  | DuplicateError
  | ValidationError
  | IntegrityError

text \<open>
  Each method opens a connection of its own (\<open>get_connection\<close>), runs its statements
  inside the implicit transaction of Python's \<open>sqlite3\<close> module, and calls
  \<open>conn.commit()\<close> as the last statement of its success path. Every other way out (an
  early \<open>return False, ...\<close>, an \<open>except\<close> clause) leaves without a commit: the
  connection is dropped and SQLite rolls the transaction back. So a method body works on
  a copy of the database, and the copy replaces the stored database only when the body
  reaches the commit.
\<close>

definition transaction ::
  "(database \<Rightarrow> error + ('a \<times> database)) \<Rightarrow> database \<Rightarrow> (error + 'a) \<times> database" where
  "transaction body db =
     (case body db of
        Inl e \<Rightarrow> (Inl e, db)
      | Inr (r, db') \<Rightarrow> (Inr r, db'))"

subsection \<open>The SQL statements of the allocation engine\<close>

text \<open>\<open>SELECT ... FROM ip_addresses WHERE ip_address = ?\<close> followed by \<open>fetchone()\<close>.\<close>

definition select_ip :: "database \<Rightarrow> string \<Rightarrow> ip_row option" where
  "select_ip db ip = find (\<lambda>r. ip_address r = ip) (ip_addresses db)"

text \<open>\<open>UPDATE ip_addresses SET ... WHERE ip_address = ?\<close>: every matching row is rewritten.\<close>

definition update_ip :: "(ip_row \<Rightarrow> ip_row) \<Rightarrow> string \<Rightarrow> database \<Rightarrow> database" where
  "update_ip f ip db =
     db\<lparr>ip_addresses := map (\<lambda>r. if ip_address r = ip then f r else r) (ip_addresses db)\<rparr>"

text \<open>
  \<open>INSERT INTO ip_history (ip_address, action, old_status, new_status, changed_by, notes)\<close>;
  \<open>changed_at\<close> takes its default \<open>CURRENT_TIMESTAMP\<close>.
\<close>

definition insert_history ::
  "clock \<Rightarrow> string \<Rightarrow> string \<Rightarrow> ip_status \<Rightarrow> ip_status \<Rightarrow> string \<Rightarrow> string \<Rightarrow> database \<Rightarrow> database" where
  "insert_history clk ip act old new who nts db =
     db\<lparr>ip_history := ip_history db @
          [\<lparr>h_id = Suc (ip_history_seq db), h_ip_address = ip, action = act,
            old_status = old, new_status = new, changed_by = who, h_notes = nts,
            changed_at = current_timestamp clk\<rparr>],
        ip_history_seq := Suc (ip_history_seq db)\<rparr>"

subsection \<open>\<open>allocate_ip\<close>, \<open>release_ip\<close>, \<open>reserve_ip\<close>\<close>

definition allocate_ip ::
  "database \<Rightarrow> clock \<Rightarrow> string \<Rightarrow> string \<Rightarrow> string \<Rightarrow> string \<Rightarrow> string \<Rightarrow> (error + unit) \<times> database" where
  "allocate_ip db clk ip to mac dev nts =
     transaction (\<lambda>conn.
       case select_ip conn ip of
         None \<Rightarrow> Inl NotFoundError
       | Some result \<Rightarrow>
           if status result \<noteq> Free then Inl (InvalidTransitionError (status result))
           else
             let conn1 = update_ip (\<lambda>r. r\<lparr>status := Used, allocated_to := Some to,
                             mac_address := Some mac, device_type := Some dev,
                             allocated_at := Some (datetime_now clk), ip_notes := Some nts,
                             last_updated := current_timestamp clk\<rparr>) ip conn;
                 conn2 = insert_history clk ip ''allocate'' Free Used to nts conn1
             in Inr ((), conn2)) db"

definition release_ip ::
  "database \<Rightarrow> clock \<Rightarrow> string \<Rightarrow> string \<Rightarrow> (error + unit) \<times> database" where
  "release_ip db clk ip nts =
     transaction (\<lambda>conn.
       case select_ip conn ip of
         None \<Rightarrow> Inl NotFoundError
       | Some result \<Rightarrow>
           let conn1 = update_ip (\<lambda>r. r\<lparr>status := Free, allocated_to := None,
                           mac_address := None, device_type := None,
                           allocated_at := None, ip_notes := Some [],
                           last_updated := current_timestamp clk\<rparr>) ip conn;
               conn2 = insert_history clk ip ''release'' (status result) Free ''system'' nts conn1
           in Inr ((), conn2)) db"

text \<open>
  \<open>reserve_ip\<close> runs its \<open>UPDATE\<close> and its \<open>INSERT INTO ip_history\<close> without a \<open>SELECT\<close>
  before them: an \<open>UPDATE\<close> that matches no row is not an error in SQL.
\<close>

definition reserve_ip ::
  "database \<Rightarrow> clock \<Rightarrow> string \<Rightarrow> string \<Rightarrow> (error + unit) \<times> database" where
  "reserve_ip db clk ip nts =
     transaction (\<lambda>conn.
       let conn1 = update_ip (\<lambda>r. r\<lparr>status := Reserved, ip_notes := Some nts,
                       last_updated := current_timestamp clk\<rparr>) ip conn;
           conn2 = insert_history clk ip ''reserve'' Free Reserved ''system'' nts conn1
       in Inr ((), conn2)) db"

subsection \<open>\<open>bulk_allocate_ips\<close> of \<open>ipam_gui.py\<close>\<close>

text \<open>
  The loop of the bulk allocation dialog: one \<open>allocate_ip\<close> call per selected
  address, each its own transaction; successes are counted, failures are collected with
  their address.
\<close>

definition bulk_allocate_step ::
  "clock \<Rightarrow> string \<Rightarrow> string \<Rightarrow> string \<Rightarrow> string \<Rightarrow> string \<Rightarrow>
   database \<times> nat \<times> (string \<times> error) list \<Rightarrow> database \<times> nat \<times> (string \<times> error) list" where
  "bulk_allocate_step clk to mac dev nts ip acc =
     (case acc of (db, success_count, error_messages) \<Rightarrow>
        (case allocate_ip db clk ip to mac dev nts of
           (Inr ok, db') \<Rightarrow> (db', success_count + 1, error_messages)
         | (Inl e, db') \<Rightarrow> (db', success_count, error_messages @ [(ip, e)])))"

definition bulk_allocate_ips ::
  "database \<Rightarrow> clock \<Rightarrow> string list \<Rightarrow> string \<Rightarrow> string \<Rightarrow> string \<Rightarrow> string \<Rightarrow>
   (nat \<times> (string \<times> error) list) \<times> database" where
  "bulk_allocate_ips db clk selected_items to mac dev nts =
     (case fold (bulk_allocate_step clk to mac dev nts) selected_items (db, 0, []) of
        (db', success_count, error_messages) \<Rightarrow> ((success_count, error_messages), db'))"

section \<open>Python string operations used by the module\<close>

text \<open>
  The character tables are Python's on the ASCII range: \<open>str.strip()\<close> removes the
  characters for which \<open>str.isspace()\<close> holds (codes 9 to 13, 28 to 31 and 32),
  \<open>str.lower()\<close> maps \<open>A..Z\<close> to \<open>a..z\<close>, \<open>int()\<close> skips the C whitespace
  (codes 9 to 13 and 32). Python's tables for code points beyond ASCII are not modelled.
\<close>

definition code :: "char \<Rightarrow> nat" where
  "code c = of_char c"

definition isspace :: "char \<Rightarrow> bool" where
  "isspace c = ((9 \<le> code c \<and> code c \<le> 13) \<or> (28 \<le> code c \<and> code c \<le> 32))"

definition strip :: "string \<Rightarrow> string" where
  "strip s = rev (dropWhile isspace (rev (dropWhile isspace s)))"

definition lower :: "string \<Rightarrow> string" where
  "lower s = map (\<lambda>c. if 65 \<le> code c \<and> code c \<le> 90 then char_of (code c + 32) else c) s"

definition isdigit :: "char \<Rightarrow> bool" where
  "isdigit c = (48 \<le> code c \<and> code c \<le> 57)"

definition digit_value :: "char \<Rightarrow> nat" where
  "digit_value c = code c - 48"

text \<open>\<open>s.split(sep)\<close> for a one-character separator: never the empty list.\<close>

fun split :: "char \<Rightarrow> string \<Rightarrow> string list" where
  "split sep [] = [[]]"
| "split sep (c # cs) =
     (if c = sep then [] # split sep cs
      else (c # hd (split sep cs)) # tl (split sep cs))"

text \<open>
  \<open>int(s)\<close> for a string: C whitespace is skipped on both sides, one sign is accepted,
  then decimal digits with single underscores between digits. \<open>None\<close> is \<open>ValueError\<close>.
  The flag of \<open>int_digits\<close> says that the character just read was a digit. (The limit
  on the number of digits that \<open>int\<close> accepts since Python 3.11, 4300 by default, is not
  modelled: a longer literal is a \<open>ValueError\<close> there.)
\<close>

definition c_isspace :: "char \<Rightarrow> bool" where
  "c_isspace c = ((9 \<le> code c \<and> code c \<le> 13) \<or> code c = 32)"

fun int_digits :: "bool \<Rightarrow> nat \<Rightarrow> string \<Rightarrow> nat option" where
  "int_digits after_digit acc [] = (if after_digit then Some acc else None)"
| "int_digits after_digit acc (c # cs) =
     (if isdigit c then int_digits True (acc * 10 + digit_value c) cs
      else if c = CHR ''_'' \<and> after_digit then int_digits False acc cs
      else None)"

definition py_int :: "string \<Rightarrow> int option" where
  "py_int s =
     (let t = rev (dropWhile c_isspace (rev (dropWhile c_isspace s)))
      in case t of
           [] \<Rightarrow> None
         | c # cs \<Rightarrow>
             if c = CHR ''-'' then map_option (\<lambda>n. - int n) (int_digits False 0 cs)
             else if c = CHR ''+'' then map_option int (int_digits False 0 cs)
             else map_option int (int_digits False 0 t))"

section \<open>\<open>import_ips_from_csv\<close>\<close>

text \<open>
  \<open>csv_data\<close> is a list of rows, each a list of strings. The body of the loop is
  \<open>import_ip_row\<close>; its state is the open transaction, \<open>updated_count\<close> and
  \<open>error_messages\<close> (one message per address that does not exist; the message is
  represented by the address it names). The status text of a row that is none of
  \<open>free\<close>, \<open>used\<close>, \<open>reserved\<close> is replaced by \<open>free\<close>. The method writes the
  \<open>status\<close> column with \<open>UPDATE\<close> statements of its own and has no
  \<open>INSERT INTO ip_history\<close>; the commit follows the loop.
\<close>

definition status_of_text :: "string \<Rightarrow> ip_status" where
  "status_of_text t =
     (if t = ''used'' then Used else if t = ''reserved'' then Reserved else Free)"

definition import_ip_row ::
  "clock \<Rightarrow> string list \<Rightarrow> database \<times> nat \<times> string list \<Rightarrow> database \<times> nat \<times> string list" where
  "import_ip_row clk row acc =
     (case acc of (conn, updated_count, error_messages) \<Rightarrow>
        if length row \<ge> 2 then
          let ip = strip (row ! 0);
              st0 = lower (strip (row ! 1));
              st = (if st0 \<notin> set [''free'', ''used'', ''reserved''] then ''free'' else st0)
          in case select_ip conn ip of
               Some existing \<Rightarrow>
                 if st = ''used'' \<and> length row \<ge> 4 then
                   (update_ip (\<lambda>r. r\<lparr>status := status_of_text st,
                        allocated_to := Some (strip (row ! 2)),
                        mac_address := Some (strip (row ! 3)),
                        device_type := Some (if length row > 4 then strip (row ! 4) else []),
                        ip_notes := Some (if length row > 5 then strip (row ! 5) else []),
                        last_updated := current_timestamp clk\<rparr>) ip conn,
                    updated_count + 1, error_messages)
                 else
                   (update_ip (\<lambda>r. r\<lparr>status := status_of_text st,
                        last_updated := current_timestamp clk\<rparr>) ip conn,
                    updated_count + 1, error_messages)
             | None \<Rightarrow> (conn, updated_count, error_messages @ [ip])
        else (conn, updated_count, error_messages))"

definition import_ips_from_csv ::
  "database \<Rightarrow> clock \<Rightarrow> string list list \<Rightarrow> (nat \<times> nat \<times> string list) \<times> database" where
  "import_ips_from_csv db clk csv_data =
     (case fold (import_ip_row clk) csv_data (db, 0, []) of
        (conn, updated_count, error_messages) \<Rightarrow> ((0, updated_count, error_messages), conn))"

section \<open>Ordering and queries\<close>

subsection \<open>\<open>ip_to_sortable_key\<close>\<close>

text \<open>
  The key is the tuple of \<open>int(part)\<close> over \<open>ip_address.split('.')\<close>, of whatever length
  the split has; the bare \<open>except\<close> clause turns any exception of the conversion into
  \<open>(0, 0, 0, 0)\<close>. Python compares tuples of integers lexicographically, a proper prefix
  before its extensions: the order of \<open>int list\<close>.
\<close>

definition ip_to_sortable_key :: "string \<Rightarrow> int list" where
  "ip_to_sortable_key ip =
     (case those (map py_int (split CHR ''.'' ip)) of
        Some parts \<Rightarrow> parts
      | None \<Rightarrow> [0, 0, 0, 0])"

subsection \<open>Labels\<close>

definition label_free :: string where
  \<comment> \<open>the UTF-8 bytes of the source's label for "free"\<close>
  "label_free = [CHR 0xE7, CHR 0xA9, CHR 0xBA, CHR 0xE9, CHR 0x97, CHR 0xB2]"

definition label_used :: string where
  \<comment> \<open>the UTF-8 bytes of the source's label for "used"\<close>
  "label_used = [CHR 0xE5, CHR 0xB7, CHR 0xB2, CHR 0xE7, CHR 0x94, CHR 0xA8]"

definition label_reserved :: string where
  \<comment> \<open>the UTF-8 bytes of the source's label for "reserved"\<close>
  "label_reserved = [CHR 0xE4, CHR 0xBF, CHR 0x9D, CHR 0xE7, CHR 0x95, CHR 0x99]"

definition label_all_subnets :: string where
  \<comment> \<open>the UTF-8 bytes of the source's label for "all subnets"\<close>
  "label_all_subnets = [CHR 0xE6, CHR 0x89, CHR 0x80, CHR 0xE6, CHR 0x9C, CHR 0x89, CHR 0xE5, CHR 0xAD, CHR 0x90, CHR 0xE7, CHR 0xBD, CHR 0x91]"

definition label_all_statuses :: string where
  \<comment> \<open>the UTF-8 bytes of the source's label for "all statuses"\<close>
  "label_all_statuses = [CHR 0xE6, CHR 0x89, CHR 0x80, CHR 0xE6, CHR 0x9C, CHR 0x89, CHR 0xE7, CHR 0x8A, CHR 0xB6, CHR 0xE6, CHR 0x80, CHR 0x81]"

definition note_network_address :: string where
  \<comment> \<open>the UTF-8 bytes of the source's label for "network address"\<close>
  "note_network_address = [CHR 0xE7, CHR 0xBD, CHR 0x91, CHR 0xE7, CHR 0xBB, CHR 0x9C, CHR 0xE5, CHR 0x9C, CHR 0xB0, CHR 0xE5, CHR 0x9D, CHR 0x80]"

definition note_broadcast_address :: string where
  \<comment> \<open>the UTF-8 bytes of the source's label for "broadcast address"\<close>
  "note_broadcast_address = [CHR 0xE5, CHR 0xB9, CHR 0xBF, CHR 0xE6, CHR 0x92, CHR 0xAD, CHR 0xE5, CHR 0x9C, CHR 0xB0, CHR 0xE5, CHR 0x9D, CHR 0x80]"


subsection \<open>Joins and \<open>LIKE\<close>\<close>

text \<open>
  \<open>FROM ip_addresses ip JOIN subnets s ON ip.subnet_id = s.id\<close> and its \<open>LEFT JOIN\<close>
  variant, which keeps an address without a subnet, paired with \<open>NULL\<close>s.
\<close>

definition join_subnets :: "database \<Rightarrow> (ip_row \<times> subnet_row) list" where
  "join_subnets db =
     concat (map (\<lambda>ip. map (\<lambda>s. (ip, s))
                   (filter (\<lambda>s. subnet_id ip = Some (s_id s)) (subnets db)))
             (ip_addresses db))"

definition left_join_subnets :: "database \<Rightarrow> (ip_row \<times> subnet_row option) list" where
  "left_join_subnets db =
     concat (map (\<lambda>ip. case filter (\<lambda>s. subnet_id ip = Some (s_id s)) (subnets db) of
                          [] \<Rightarrow> [(ip, None)]
                        | ss \<Rightarrow> map (\<lambda>s. (ip, Some s)) ss)
             (ip_addresses db))"

text \<open>
  SQLite's \<open>text LIKE pattern\<close>: \<open>%\<close> matches any run of characters, \<open>_\<close> one character,
  any other character itself, ASCII letters without regard to case. \<open>NULL LIKE pattern\<close>
  is not true. (SQLite matches \<open>_\<close> against one UTF-8 character; here it matches one
  byte.)
\<close>

fun sql_like :: "string \<Rightarrow> string \<Rightarrow> bool" where
  "sql_like [] t = (t = [])"
| "sql_like (p # ps) t =
     (if p = CHR ''%'' then
        sql_like ps t \<or> (case t of [] \<Rightarrow> False | c # ts \<Rightarrow> sql_like (p # ps) ts)
      else
        (case t of
           [] \<Rightarrow> False
         | c # ts \<Rightarrow> (p = CHR ''_'' \<or> lower [p] = lower [c]) \<and> sql_like ps ts))"

definition like_null :: "string option \<Rightarrow> string \<Rightarrow> bool" where
  "like_null col pattern = (case col of None \<Rightarrow> False | Some t \<Rightarrow> sql_like pattern t)"

text \<open>Python's truth value of an optional string argument: \<open>None\<close> and \<open>""\<close> are false.\<close>

definition truthy :: "string option \<Rightarrow> bool" where
  "truthy a = (a \<noteq> None \<and> a \<noteq> Some [])"

subsection \<open>\<open>get_ips_by_subnet\<close>, \<open>get_free_ips\<close>, \<open>search_ips\<close>\<close>

type_synonym ip_tuple =
  "string \<times> ip_status \<times> string option \<times> string option \<times> string option \<times>
   timestamp option \<times> string option"

type_synonym search_tuple =
  "string \<times> ip_status \<times> string option \<times> string option \<times> string option \<times>
   timestamp option \<times> string option \<times> string option \<times> string option"

definition ip_columns :: "ip_row \<Rightarrow> ip_tuple" where
  "ip_columns ip = (ip_address ip, status ip, allocated_to ip, mac_address ip,
     device_type ip, allocated_at ip, ip_notes ip)"

definition status_map :: "string \<Rightarrow> ip_status option" where
  \<comment> \<open>the dictionary \<open>status_map\<close> of \<open>get_ips_by_subnet\<close>\<close>
  "status_map t =
     (if t = label_free \<or> t = ''free'' then Some Free
      else if t = label_used \<or> t = ''used'' then Some Used
      else if t = label_reserved \<or> t = ''reserved'' then Some Reserved
      else None)"

definition status_mapping :: "string \<Rightarrow> ip_status option" where
  \<comment> \<open>the dictionary \<open>status_mapping\<close> of \<open>search_ips\<close>\<close>
  "status_mapping t =
     (if t = label_free then Some Free
      else if t = label_used then Some Used
      else if t = label_reserved then Some Reserved
      else None)"

definition get_ips_by_subnet :: "database \<Rightarrow> string \<Rightarrow> string option \<Rightarrow> ip_tuple list" where
  "get_ips_by_subnet db cidr status_filter =
     (let rows = filter (\<lambda>(ip, s). subnet_cidr s = cidr) (join_subnets db);
          rows' = (if truthy status_filter \<and> status_filter \<noteq> Some ''all'' then
                     (case status_map (the status_filter) of
                        Some db_status \<Rightarrow> filter (\<lambda>(ip, s). status ip = db_status) rows
                      | None \<Rightarrow> rows)
                   else rows);
          results = map (\<lambda>(ip, s). ip_columns ip) rows'
      in sort_key (\<lambda>x. ip_to_sortable_key (fst x)) results)"

definition get_free_ips :: "database \<Rightarrow> string \<Rightarrow> string list" where
  "get_free_ips db cidr =
     (let results = map (\<lambda>(ip, s). ip_address ip)
            (filter (\<lambda>(ip, s). subnet_cidr s = cidr \<and> status ip = Free) (join_subnets db))
      in sort_key ip_to_sortable_key results)"

definition search_columns :: "ip_row \<times> subnet_row option \<Rightarrow> search_tuple" where
  "search_columns x =
     (case x of (ip, s) \<Rightarrow>
        (ip_address ip, status ip, allocated_to ip, mac_address ip, device_type ip,
         allocated_at ip, ip_notes ip, map_option subnet_cidr s, map_option description s))"

definition keyword_matches :: "string \<Rightarrow> ip_row \<times> subnet_row option \<Rightarrow> bool" where
  "keyword_matches pattern x =
     (case x of (ip, s) \<Rightarrow>
        sql_like pattern (ip_address ip) \<or>
        like_null (allocated_to ip) pattern \<or>
        like_null (mac_address ip) pattern \<or>
        like_null (device_type ip) pattern \<or>
        like_null (ip_notes ip) pattern \<or>
        like_null (map_option subnet_cidr s) pattern \<or>
        like_null (map_option description s) pattern)"

definition search_ips ::
  "database \<Rightarrow> string option \<Rightarrow> string option \<Rightarrow> string option \<Rightarrow> search_tuple list" where
  "search_ips db subnet status_arg keyword =
     (let rows0 = left_join_subnets db;
          rows1 = (if truthy subnet \<and> subnet \<noteq> Some label_all_subnets then
                     filter (\<lambda>(ip, s). map_option subnet_cidr s = subnet) rows0
                   else rows0);
          rows2 = (if truthy status_arg \<and> status_arg \<noteq> Some label_all_statuses then
                     (case status_mapping (the status_arg) of
                        Some db_status \<Rightarrow> filter (\<lambda>(ip, s). status ip = db_status) rows1
                      | None \<Rightarrow> rows1)
                   else rows1);
          rows3 = (if truthy keyword \<and> strip (the keyword) \<noteq> [] then
                     filter (keyword_matches (''%'' @ strip (the keyword) @ ''%'')) rows2
                   else rows2);
          results = map search_columns rows3
      in sort_key (\<lambda>x. ip_to_sortable_key (fst x)) results)"

section \<open>\<open>create_subnet\<close>\<close>

subsection \<open>The standard library's \<open>ipaddress.ip_network\<close>, IPv4\<close>

text \<open>
  \<open>create_subnet\<close> validates its argument with \<open>ipaddress.ip_network(subnet_cidr)\<close>
  (strict mode) and reads \<open>hosts()\<close>, \<open>network_address\<close> and \<open>broadcast_address\<close> of
  the result. The definitions below follow CPython's \<open>ipaddress.py\<close> for IPv4 text; an
  address is its 32-bit value as a natural number. \<open>None\<close> stands for the \<open>ValueError\<close>
  (or its subclasses \<open>AddressValueError\<close>, \<open>NetmaskValueError\<close>) that the library raises.
  IPv6 text, which \<open>ip_network\<close> accepts as well, is outside this model.
\<close>

definition decimal :: "string \<Rightarrow> nat" where
  "decimal s = foldl (\<lambda>a c. a * 10 + digit_value c) 0 s"

definition parse_octet :: "string \<Rightarrow> nat option" where
  \<comment> \<open>\<open>IPv4Address._parse_octet\<close>: one to three ASCII digits, no leading zero, at most 255\<close>
  "parse_octet octet_str =
     (if octet_str = [] then None
      else if \<not> list_all isdigit octet_str then None
      else if length octet_str > 3 then None
      else if octet_str \<noteq> ''0'' \<and> hd octet_str = CHR ''0'' then None
      else if decimal octet_str > 255 then None
      else Some (decimal octet_str))"

definition ip_int_from_string :: "string \<Rightarrow> nat option" where
  \<comment> \<open>\<open>IPv4Address._ip_int_from_string\<close>: exactly four octets, big-endian\<close>
  "ip_int_from_string ip_str =
     (let octets = split CHR ''.'' ip_str
      in if length octets \<noteq> 4 then None
         else map_option (foldl (\<lambda>a b. a * 256 + b) 0) (those (map parse_octet octets)))"

definition prefix_from_prefix_string :: "string \<Rightarrow> nat option" where
  "prefix_from_prefix_string prefixlen_str =
     (if prefixlen_str = [] \<or> \<not> list_all isdigit prefixlen_str then None
      else if decimal prefixlen_str > 32 then None
      else Some (decimal prefixlen_str))"

definition prefix_from_ip_int :: "nat \<Rightarrow> nat option" where
  \<comment> \<open>the prefix length \<open>p\<close> whose netmask (\<open>p\<close> ones, then zeros) is \<open>ip_int\<close>\<close>
  "prefix_from_ip_int ip_int = find (\<lambda>p. ip_int = 2 ^ 32 - 2 ^ (32 - p)) [0..<33]"

definition prefix_from_ip_string :: "string \<Rightarrow> nat option" where
  \<comment> \<open>a netmask in dotted form or, failing that, a host mask (the bits inverted)\<close>
  "prefix_from_ip_string ip_str =
     (case ip_int_from_string ip_str of
        None \<Rightarrow> None
      | Some ip_int \<Rightarrow>
          (case prefix_from_ip_int ip_int of
             Some p \<Rightarrow> Some p
           | None \<Rightarrow> prefix_from_ip_int (2 ^ 32 - 1 - ip_int)))"

definition make_netmask :: "string \<Rightarrow> nat option" where
  "make_netmask arg =
     (case prefix_from_prefix_string arg of
        Some p \<Rightarrow> Some p
      | None \<Rightarrow> prefix_from_ip_string arg)"

record ipv4network =
  network_address :: nat
  prefixlen :: nat

definition ip_network :: "string \<Rightarrow> ipv4network option" where
  "ip_network address =
     (let parts = split CHR ''/'' address
      in if length parts > 2 then None
         else
           (case ip_int_from_string (hd parts) of
              None \<Rightarrow> None
            | Some packed \<Rightarrow>
                (case (if length parts = 2 then make_netmask (parts ! 1) else Some 32) of
                   None \<Rightarrow> None
                 | Some p \<Rightarrow>
                     if packed mod 2 ^ (32 - p) \<noteq> 0 then None
                     else Some \<lparr>network_address = packed, prefixlen = p\<rparr>)))"

definition broadcast_address :: "ipv4network \<Rightarrow> nat" where
  "broadcast_address network = network_address network + 2 ^ (32 - prefixlen network) - 1"

text \<open>
  \<open>IPv4Network.hosts()\<close>: the addresses strictly between the network and the broadcast
  address; the constructor replaces the method for the two longest prefixes, so that a
  \<open>/31\<close> yields both of its addresses and a \<open>/32\<close> its single address.
\<close>

definition hosts :: "ipv4network \<Rightarrow> nat list" where
  "hosts network =
     (if prefixlen network = 31 then [network_address network ..< broadcast_address network + 1]
      else if prefixlen network = 32 then [network_address network]
      else [network_address network + 1 ..< broadcast_address network])"

text \<open>
  The truth value of an \<open>IPv4Address\<close> object: the class defines neither \<open>__bool__\<close> nor
  \<open>__len__\<close>, so every instance is true, \<open>0.0.0.0\<close> included.
\<close>

definition ipv4address_bool :: "nat \<Rightarrow> bool" where
  "ipv4address_bool a = True"

fun str_nat :: "nat \<Rightarrow> string" where
  "str_nat n =
     (if n < 10 then [char_of (48 + n)]
      else str_nat (n div 10) @ [char_of (48 + n mod 10)])"

declare str_nat.simps [simp del]

definition str_ip :: "nat \<Rightarrow> string" where
  \<comment> \<open>\<open>str\<close> of an \<open>IPv4Address\<close>: the four octets in decimal, joined by dots\<close>
  "str_ip a =
     str_nat (a div 2 ^ 24 mod 256) @ ''.'' @ str_nat (a div 2 ^ 16 mod 256) @ ''.'' @
     str_nat (a div 2 ^ 8 mod 256) @ ''.'' @ str_nat (a mod 256)"

subsection \<open>The statements of \<open>create_subnet\<close>\<close>

text \<open>
  \<open>INSERT INTO ip_addresses (ip_address, subnet_id, status [, notes])\<close>. The column
  \<open>ip_address\<close> is \<open>UNIQUE\<close>: inserting an address that the table already holds raises
  \<open>sqlite3.IntegrityError\<close>. The columns that the statement does not name take their
  defaults, \<open>NULL\<close> and \<open>CURRENT_TIMESTAMP\<close>.
\<close>

definition insert_ip ::
  "clock \<Rightarrow> string \<Rightarrow> nat \<Rightarrow> ip_status \<Rightarrow> string option \<Rightarrow> database \<Rightarrow> error + database" where
  "insert_ip clk ip sid st nts conn =
     (if ip \<in> set (map ip_address (ip_addresses conn)) then Inl IntegrityError
      else Inr (conn\<lparr>ip_addresses := ip_addresses conn @
                  [\<lparr>ip_id = Suc (ip_addresses_seq conn), ip_address = ip,
                    subnet_id = Some sid, status = st, allocated_to = None,
                    mac_address = None, device_type = None, allocated_at = None,
                    ip_notes = nts, last_updated = current_timestamp clk\<rparr>],
                ip_addresses_seq := Suc (ip_addresses_seq conn)\<rparr>))"

definition insert_subnet ::
  "clock \<Rightarrow> string \<Rightarrow> string \<Rightarrow> string \<Rightarrow> string \<Rightarrow> database \<Rightarrow> database" where
  "insert_subnet clk cidr desc gw dns conn =
     conn\<lparr>subnets := subnets conn @
            [\<lparr>s_id = Suc (subnets_seq conn), subnet_cidr = cidr, description = desc,
              gateway = gw, dns_server = dns, created_at = current_timestamp clk\<rparr>],
          subnets_seq := Suc (subnets_seq conn)\<rparr>"

text \<open>
  The loop \<open>for ip in network.hosts()\<close>: one insert per host, \<open>total_ips\<close> counted; the
  first \<open>IntegrityError\<close> leaves the loop.
\<close>

fun insert_hosts ::
  "clock \<Rightarrow> nat \<Rightarrow> nat list \<Rightarrow> database \<times> nat \<Rightarrow> error + database \<times> nat" where
  "insert_hosts clk sid [] (conn, total_ips) = Inr (conn, total_ips)"
| "insert_hosts clk sid (ip # ips) (conn, total_ips) =
     (case insert_ip clk (str_ip ip) sid Free None conn of
        Inl e \<Rightarrow> Inl e
      | Inr conn' \<Rightarrow> insert_hosts clk sid ips (conn', total_ips + 1))"

text \<open>
  The success value is \<open>total_ips\<close>, the number that the success message reports.
  \<open>ip_network\<close> is called before the connection is opened.
\<close>

definition create_subnet ::
  "database \<Rightarrow> clock \<Rightarrow> string \<Rightarrow> string \<Rightarrow> string \<Rightarrow> string \<Rightarrow> (error + nat) \<times> database" where
  "create_subnet db clk cidr desc gw dns =
     (case ip_network cidr of
        None \<Rightarrow> (Inl ValidationError, db)
      | Some network \<Rightarrow>
          transaction (\<lambda>conn.
            if find (\<lambda>s. subnet_cidr s = cidr) (subnets conn) \<noteq> None then Inl DuplicateError
            else
              let conn1 = insert_subnet clk cidr desc gw dns conn;
                  sid = subnets_seq conn1
              in case insert_hosts clk sid (hosts network) (conn1, 0) of
                   Inl e \<Rightarrow> Inl e
                 | Inr (conn2, total_ips) \<Rightarrow>
                     let network_addr = str_ip (network_address network);
                         broadcast_addr =
                           (if ipv4address_bool (broadcast_address network)
                            then str_ip (broadcast_address network) else [])
                     in case insert_ip clk network_addr sid Reserved
                               (Some note_network_address) conn2 of
                          Inl e \<Rightarrow> Inl e
                        | Inr conn3 \<Rightarrow>
                            if broadcast_addr \<noteq> [] then
                              (case insert_ip clk broadcast_addr sid Reserved
                                      (Some note_broadcast_address) conn3 of
                                 Inl e \<Rightarrow> Inl e
                               | Inr conn4 \<Rightarrow> Inr (total_ips + 2, conn4))
                            else Inr (total_ips + 1, conn3)) db)"

text \<open>\<open>import_subnet_from_csv\<close>: one \<open>create_subnet\<close> call per row, each its own transaction.\<close>

definition import_subnet_row ::
  "clock \<Rightarrow> string list \<Rightarrow> database \<times> nat \<times> error list \<Rightarrow> database \<times> nat \<times> error list" where
  "import_subnet_row clk row acc =
     (case acc of (db, imported_count, error_messages) \<Rightarrow>
        if length row \<ge> 1 then
          (case create_subnet db clk (strip (row ! 0))
                  (if length row > 1 then strip (row ! 1) else [])
                  (if length row > 2 then strip (row ! 2) else [])
                  (if length row > 3 then strip (row ! 3) else []) of
             (Inr total_ips, db') \<Rightarrow> (db', imported_count + 1, error_messages)
           | (Inl e, db') \<Rightarrow> (db', imported_count, error_messages @ [e]))
        else (db, imported_count, error_messages))"

definition import_subnet_from_csv ::
  "database \<Rightarrow> clock \<Rightarrow> string list list \<Rightarrow> (nat \<times> error list) \<times> database" where
  "import_subnet_from_csv db clk csv_data =
     (case fold (import_subnet_row clk) csv_data (db, 0, []) of
        (db', imported_count, error_messages) \<Rightarrow> ((imported_count, error_messages), db'))"

section \<open>Python floating-point arithmetic\<close>

text \<open>
  \<open>used / total\<close> divides two Python integers into a \<open>float\<close> and \<open>* 100\<close> multiplies
  floats; both operations return the IEEE 754 binary64 number nearest to the exact
  result, ties to the even significand. A float is modelled as the rational number it
  denotes. \<open>binary64\<close> rounds a rational to 53 significant bits: for \<open>2 ^ e \<le> |x| < 2 ^ (e + 1)\<close>
  the result is a multiple of \<open>2 ^ (e - 52)\<close>. The exponent is not bounded (no overflow,
  no subnormal numbers): the quotients and percentages computed here lie far inside the
  normal range.
\<close>

definition round_half_even :: "rat \<Rightarrow> int" where
  "round_half_even x =
     (let f = \<lfloor>x\<rfloor>; d = x - of_int f
      in if d < 1 / 2 then f else if d > 1 / 2 then f + 1 else if even f then f else f + 1)"

definition exponent :: "rat \<Rightarrow> int" where
  "exponent x =
     (case quotient_of x of (p, q) \<Rightarrow>
        let k = int (floorlog 2 (nat p)) - int (floorlog 2 (nat q))
        in if x < 2 powi k then k - 1 else k)"

definition binary64 :: "rat \<Rightarrow> rat" where
  "binary64 x =
     (if x = 0 then 0
      else let a = \<bar>x\<bar>; e = exponent a - 52
           in sgn x * of_int (round_half_even (a / 2 powi e)) * 2 powi e)"

definition py_truediv :: "nat \<Rightarrow> nat \<Rightarrow> rat" where
  "py_truediv a b = binary64 (of_nat a / of_nat b)"

definition float_mul :: "rat \<Rightarrow> rat \<Rightarrow> rat" where
  "float_mul x y = binary64 (x * y)"

section \<open>Statistics\<close>

text \<open>The two thresholds of \<open>ipam_config.Config\<close>.\<close>

definition HIGH_USAGE_THRESHOLD :: nat where
  "HIGH_USAGE_THRESHOLD = 80"

definition MEDIUM_USAGE_THRESHOLD :: nat where
  "MEDIUM_USAGE_THRESHOLD = 60"

text \<open>
  The labels that \<open>get_subnets_with_stats\<close> assigns, in the order of its \<open>if\<close> chain:
  "empty", "high usage", "medium-high usage", "idle", "normal".
\<close>

datatype subnet_status = Empty | High | MediumHigh | Idle | Normal

text \<open>\<open>SUM(CASE WHEN status = ... THEN 1 ELSE 0 END)\<close> over a group of address rows.\<close>

definition count_status :: "ip_status \<Rightarrow> ip_row list \<Rightarrow> nat" where
  "count_status st rows = length (filter (\<lambda>r. status r = st) rows)"

text \<open>
  The query of \<open>get_subnets_with_stats\<close>: every subnet with the counts of its addresses
  (\<open>LEFT JOIN ... GROUP BY s.id\<close>, one group per subnet since \<open>id\<close> is the primary key),
  ordered by the CIDR text in byte order. A result row is the subnet and the four
  counts \<open>total_ips\<close>, \<open>used_ips\<close>, \<open>free_ips\<close>, \<open>reserved_ips\<close>.
\<close>

type_synonym subnet_counts = "subnet_row \<times> nat \<times> nat \<times> nat \<times> nat"

definition select_subnets_with_counts :: "database \<Rightarrow> subnet_counts list" where
  "select_subnets_with_counts db =
     map (\<lambda>s. let rows = filter (\<lambda>ip. subnet_id ip = Some (s_id s)) (ip_addresses db)
              in (s, length rows, count_status Used rows, count_status Free rows,
                  count_status Reserved rows))
       (sort_key (\<lambda>s. map code (subnet_cidr s)) (subnets db))"

record subnet_stats =
  st_subnet :: subnet_row
  st_total_ips :: nat
  st_used_ips :: nat
  st_free_ips :: nat
  st_reserved_ips :: nat
  st_usage_rate :: rat
  st_status :: subnet_status

text \<open>The body of the loop \<open>for subnet in subnets\<close>.\<close>

definition stats_row :: "subnet_counts \<Rightarrow> subnet_stats" where
  "stats_row subnet =
     (case subnet of (s, total_ips', used, free, reserved) \<Rightarrow>
        let usage = (if total_ips' > 0 then float_mul (py_truediv used total_ips') 100 else 0);
            st = (if total_ips' = 0 then Empty
                  else if usage \<ge> of_nat HIGH_USAGE_THRESHOLD then High
                  else if usage \<ge> of_nat MEDIUM_USAGE_THRESHOLD then MediumHigh
                  else if used = 0 then Idle
                  else Normal)
        in \<lparr>st_subnet = s, st_total_ips = total_ips', st_used_ips = used, st_free_ips = free,
             st_reserved_ips = reserved, st_usage_rate = usage, st_status = st\<rparr>)"

definition get_subnets_with_stats :: "database \<Rightarrow> subnet_stats list" where
  "get_subnets_with_stats db = map stats_row (select_subnets_with_counts db)"

record statistics =
  g_total :: nat
  g_used :: nat
  g_free :: nat
  g_reserved :: nat
  g_usage_rate :: rat

definition get_statistics :: "database \<Rightarrow> statistics" where
  "get_statistics db =
     (let rows = ip_addresses db;
          stats0 = length rows;
          stats1 = count_status Used rows;
          usage = (if stats0 > 0 then float_mul (py_truediv stats1 stats0) 100 else 0)
      in \<lparr>g_total = stats0, g_used = stats1, g_free = count_status Free rows,
           g_reserved = count_status Reserved rows, g_usage_rate = usage\<rparr>)"

subsection \<open>The formula and the classification as the specification words them\<close>

text \<open>
  In exact arithmetic: \<open>usage_rate = used / total * 100\<close>, and \<open>0\<close> if \<open>total = 0\<close>; the
  status is \<open>Empty\<close> if \<open>total = 0\<close>, else \<open>High\<close> if \<open>usage_rate \<ge> 80\<close>, else \<open>MediumHigh\<close>
  if \<open>usage_rate \<ge> 60\<close>, else \<open>Idle\<close> if \<open>used = 0\<close>, else \<open>Normal\<close>.
\<close>

definition spec_usage_rate :: "nat \<Rightarrow> nat \<Rightarrow> rat" where
  "spec_usage_rate used total_ips' =
     (if total_ips' = 0 then 0 else of_nat used / of_nat total_ips' * 100)"

definition spec_status :: "nat \<Rightarrow> nat \<Rightarrow> subnet_status" where
  "spec_status used total_ips' =
     (if total_ips' = 0 then Empty
      else if spec_usage_rate used total_ips' \<ge> 80 then High
      else if spec_usage_rate used total_ips' \<ge> 60 then MediumHigh
      else if used = 0 then Idle
      else Normal)"

text \<open>The address texts that the inventory holds.\<close>

abbreviation addresses_of :: "database \<Rightarrow> string set" where
  "addresses_of db \<equiv> set (map ip_address (ip_addresses db))"

section \<open>Example values\<close>

text \<open>
  A clock reading, and the database after \<open>create_subnet("192.168.1.8/30", ...)\<close> on
  an empty database: hosts \<open>192.168.1.9\<close> and \<open>192.168.1.10\<close> (free), the network
  address \<open>192.168.1.8\<close> and the broadcast address \<open>192.168.1.11\<close> (reserved).
\<close>

definition example_clock :: clock where
  "example_clock = \<lparr>datetime_now = ''2024-01-01 08:00:00'', current_timestamp = ''2024-01-01 00:00:00''\<rparr>"

definition example_db :: database where
  "example_db = snd (create_subnet empty_database example_clock ''192.168.1.8/30'' ''office'' ''192.168.1.9'' ''192.168.1.9'')"

text \<open>
  An address that exists before and after an operation has changed its status.
\<close>

definition status_changed :: "database \<Rightarrow> database \<Rightarrow> string \<Rightarrow> bool" where
  "status_changed db db' ip =
     (case (select_ip db ip, select_ip db' ip) of
        (Some r, Some r') \<Rightarrow> status r \<noteq> status r'
      | _ \<Rightarrow> False)"

text \<open>The example database after \<open>allocate_ip("192.168.1.10", "srv01")\<close>.\<close>

definition allocated_db :: database where
  "allocated_db =
     snd (allocate_ip example_db example_clock ''192.168.1.10'' ''srv01'' [] [] [])"

chapter \<open>Verified properties\<close>

section \<open>The allocation engine\<close>

subsection \<open>Reading the tables after each statement\<close>

lemma find_update_where:
  assumes "\<And>r. ip_address (f r) = ip_address r"
  shows "find (\<lambda>r. ip_address r = ip') (map (\<lambda>r. if ip_address r = ip then f r else r) xs) =
           (if ip' = ip then map_option f (find (\<lambda>r. ip_address r = ip) xs)
            else find (\<lambda>r. ip_address r = ip') xs)"
  using assms by (induction xs) auto

lemma select_ip_update_ip:
  assumes "\<And>r. ip_address (f r) = ip_address r"
  shows "select_ip (update_ip f ip db) ip' =
           (if ip' = ip then map_option f (select_ip db ip) else select_ip db ip')"
  using find_update_where [OF assms, of ip' ip "ip_addresses db"]
  by (simp add: select_ip_def update_ip_def)

lemma select_ip_insert_history [simp]:
  "select_ip (insert_history clk ip act old new who nts db) ip' = select_ip db ip'"
  by (simp add: select_ip_def insert_history_def)

lemma subnets_update_ip [simp]: "subnets (update_ip f ip db) = subnets db"
  by (simp add: update_ip_def)

lemma subnets_insert_history [simp]:
  "subnets (insert_history clk ip act old new who nts db) = subnets db"
  by (simp add: insert_history_def)

lemma ip_history_update_ip [simp]: "ip_history (update_ip f ip db) = ip_history db"
  by (simp add: update_ip_def)

lemma allocate_ip_not_found:
  "select_ip db ip = None \<Longrightarrow> allocate_ip db clk ip to mac dev nts = (Inl NotFoundError, db)"
  by (simp add: allocate_ip_def transaction_def)

lemma allocate_ip_not_free:
  "select_ip db ip = Some r \<Longrightarrow> status r \<noteq> Free \<Longrightarrow>
   allocate_ip db clk ip to mac dev nts = (Inl (InvalidTransitionError (status r)), db)"
  by (simp add: allocate_ip_def transaction_def)

lemma allocate_ip_free:
  "select_ip db ip = Some r \<Longrightarrow> status r = Free \<Longrightarrow>
   allocate_ip db clk ip to mac dev nts =
     (Inr (), insert_history clk ip ''allocate'' Free Used to nts
        (update_ip (\<lambda>r. r\<lparr>status := Used, allocated_to := Some to,
             mac_address := Some mac, device_type := Some dev,
             allocated_at := Some (datetime_now clk), ip_notes := Some nts,
             last_updated := current_timestamp clk\<rparr>) ip db))"
  by (simp add: allocate_ip_def transaction_def)

lemma release_ip_not_found:
  "select_ip db ip = None \<Longrightarrow> release_ip db clk ip nts = (Inl NotFoundError, db)"
  by (simp add: release_ip_def transaction_def)

lemma release_ip_found:
  "select_ip db ip = Some r \<Longrightarrow>
   release_ip db clk ip nts =
     (Inr (), insert_history clk ip ''release'' (status r) Free ''system'' nts
        (update_ip (\<lambda>r. r\<lparr>status := Free, allocated_to := None,
             mac_address := None, device_type := None,
             allocated_at := None, ip_notes := Some [],
             last_updated := current_timestamp clk\<rparr>) ip db))"
  by (simp add: release_ip_def transaction_def)

lemma reserve_ip_eq:
  "reserve_ip db clk ip nts =
     (Inr (), insert_history clk ip ''reserve'' Free Reserved ''system'' nts
        (update_ip (\<lambda>r. r\<lparr>status := Reserved, ip_notes := Some nts,
             last_updated := current_timestamp clk\<rparr>) ip db))"
  by (simp add: reserve_ip_def transaction_def)

lemma history_entry_appended:
  "\<exists>e. ip_history (insert_history clk ip act old new who nts db) = ip_history db @ [e] \<and>
       h_ip_address e = ip \<and> action e = act \<and> old_status e = old \<and> new_status e = new \<and>
       changed_by e = who \<and> h_notes e = nts"
  by (simp add: insert_history_def)

subsection \<open>\<open>allocate_ip\<close>\<close>



subsection \<open>\<open>release_ip\<close>\<close>





subsection \<open>\<open>reserve_ip\<close>\<close>



text \<open>
  Claim C2 (\<open>reserve_ip\<close> on an unknown address fails with \<open>NotFoundError\<close>) does not hold
  of the code: \<open>reserve_ip\<close> has no existence check, unlike \<open>allocate_ip\<close> and
  \<open>release_ip\<close>. On an empty database the call reports success and appends a history row
  for an address that the inventory does not hold.
\<close>

theorem reserve_ip_unknown_address:
  "select_ip empty_database ''10.0.0.1'' = None \<and>
   fst (reserve_ip empty_database example_clock ''10.0.0.1'' ''backup'') = Inr () \<and>
   map h_ip_address (ip_history (snd (reserve_ip empty_database example_clock ''10.0.0.1'' ''backup'')))
     = [''10.0.0.1''] \<and>
   ip_addresses (snd (reserve_ip empty_database example_clock ''10.0.0.1'' ''backup'')) = []"
  by code_simp

section \<open>Ordering of the listings\<close>

subsection \<open>The sort key\<close>

lemma those_map:
  "those (map f xs) =
     (if \<forall>x\<in>set xs. f x \<noteq> None then Some (map (\<lambda>x. the (f x)) xs) else None)"
  by (induction xs) (auto split: option.splits)

lemma ip_to_sortable_key_cases:
  "ip_to_sortable_key ip =
     (if \<forall>p\<in>set (split CHR ''.'' ip). py_int p \<noteq> None
      then map (\<lambda>p. the (py_int p)) (split CHR ''.'' ip)
      else [0, 0, 0, 0])"
  by (auto simp: ip_to_sortable_key_def those_map)

subsection \<open>Decimal text of an octet\<close>

lemma code_char_of: "(n::nat) < 256 \<Longrightarrow> code (char_of n) = n"
  by (simp add: code_def)

lemma isdigit_char_of: "(d::nat) < 10 \<Longrightarrow> isdigit (char_of (48 + d))"
  by (simp add: isdigit_def code_char_of)

lemma digit_value_char_of: "(d::nat) < 10 \<Longrightarrow> digit_value (char_of (48 + d)) = d"
  by (simp add: digit_value_def code_char_of)

lemma str_nat_digits: "list_all isdigit (str_nat n)"
proof (induction n rule: str_nat.induct)
  case (1 n)
  show ?case
  proof (cases "n < 10")
    case True
    then show ?thesis by (subst str_nat.simps) (simp add: isdigit_char_of)
  next
    case False
    then show ?thesis
      using 1 by (subst str_nat.simps) (simp add: isdigit_char_of)
  qed
qed

lemma str_nat_nonempty: "str_nat n \<noteq> []"
  by (subst str_nat.simps) simp

lemma decimal_snoc: "decimal (xs @ [c]) = decimal xs * 10 + digit_value c"
  by (simp add: decimal_def)

lemma decimal_str_nat: "decimal (str_nat n) = n"
proof (induction n rule: str_nat.induct)
  case (1 n)
  show ?case
  proof (cases "n < 10")
    case True
    then show ?thesis
      by (subst str_nat.simps) (simp add: decimal_def digit_value_char_of)
  next
    case False
    then have "decimal (str_nat n) = decimal (str_nat (n div 10)) * 10 + n mod 10"
      by (subst str_nat.simps) (simp add: decimal_snoc digit_value_char_of)
    then show ?thesis using 1 False by simp
  qed
qed

lemma int_digits_all_digits:
  "list_all isdigit xs \<Longrightarrow>
   int_digits b acc xs =
     (if xs = [] then (if b then Some acc else None)
      else Some (foldl (\<lambda>a c. a * 10 + digit_value c) acc xs))"
  by (induction xs arbitrary: b acc) auto

lemma isdigit_not_space: "isdigit c \<Longrightarrow> \<not> c_isspace c"
  by (auto simp: isdigit_def c_isspace_def)

lemma not_isdigit_signs:
  "\<not> isdigit CHR ''-''" "\<not> isdigit CHR ''+''" "\<not> isdigit CHR ''.''"
  by (simp_all add: isdigit_def code_def)

lemma isdigit_not_sign: "isdigit c \<Longrightarrow> c \<noteq> CHR ''-'' \<and> c \<noteq> CHR ''+'' \<and> c \<noteq> CHR ''.''"
  using not_isdigit_signs by blast

lemma dropWhile_digits:
  "xs \<noteq> [] \<Longrightarrow> list_all isdigit xs \<Longrightarrow> dropWhile c_isspace xs = xs"
  by (cases xs) (auto simp: isdigit_not_space)

lemma py_int_digits:
  assumes "xs \<noteq> []" and "list_all isdigit xs"
  shows "py_int xs = Some (int (decimal xs))"
proof -
  have r: "rev xs \<noteq> []" "list_all isdigit (rev xs)"
    using assms by (simp_all add: list_all_iff)
  have t: "rev (dropWhile c_isspace (rev (dropWhile c_isspace xs))) = xs"
    using assms r by (simp add: dropWhile_digits)
  obtain c cs where xs: "xs = c # cs" using assms(1) by (cases xs) auto
  then have c: "isdigit c" using assms(2) by simp
  have "int_digits False 0 xs = Some (decimal xs)"
    using assms by (simp add: int_digits_all_digits decimal_def)
  then show ?thesis
    using isdigit_not_sign [OF c] xs t by (simp add: py_int_def)
qed

lemma py_int_str_nat: "py_int (str_nat n) = Some (int n)"
  using py_int_digits [OF str_nat_nonempty str_nat_digits, of n] by (simp add: decimal_str_nat)

lemma split_no_sep: "sep \<notin> set xs \<Longrightarrow> split sep xs = [xs]"
  by (induction xs) auto

lemma split_append_sep:
  "sep \<notin> set xs \<Longrightarrow> split sep (xs @ sep # ys) = xs # split sep ys"
  by (induction xs) auto

lemma dot_notin_str_nat: "CHR ''.'' \<notin> set (str_nat n)"
  using str_nat_digits [of n] isdigit_not_sign by (auto simp: list_all_iff)

lemma split_str_ip:
  "split CHR ''.'' (str_ip a) =
     [str_nat (a div 2 ^ 24 mod 256), str_nat (a div 2 ^ 16 mod 256),
      str_nat (a div 2 ^ 8 mod 256), str_nat (a mod 256)]"
  by (simp add: str_ip_def split_append_sep split_no_sep dot_notin_str_nat)

lemma ip_to_sortable_key_str_ip:
  "ip_to_sortable_key (str_ip a) =
     [int (a div 2 ^ 24 mod 256), int (a div 2 ^ 16 mod 256),
      int (a div 2 ^ 8 mod 256), int (a mod 256)]"
  by (simp add: ip_to_sortable_key_def split_str_ip py_int_str_nat)

subsection \<open>The listings\<close>

lemma get_ips_by_subnet_sorted:
  "sorted (map (\<lambda>x. ip_to_sortable_key (fst x)) (get_ips_by_subnet db cidr status_filter))"
  by (simp add: get_ips_by_subnet_def Let_def sorted_sort_key del: sort_key_simps)

lemma get_free_ips_sorted:
  "sorted (map ip_to_sortable_key (get_free_ips db cidr))"
  by (simp add: get_free_ips_def Let_def sorted_sort_key)

lemma search_ips_sorted:
  "sorted (map (\<lambda>x. ip_to_sortable_key (fst x)) (search_ips db subnet status_arg keyword))"
  by (simp add: search_ips_def Let_def sorted_sort_key)

text \<open>
  Claim C8, as amended. \<open>get_ips_by_subnet\<close>, \<open>get_free_ips\<close> and \<open>search_ips\<close> return
  their rows in ascending order of \<open>ip_to_sortable_key\<close>, whatever the filters. For the
  text of an IPv4 address, the form of every address that \<open>create_subnet\<close> stores, the key
  is the tuple of its four octets. For any other string the computation does not raise:
  the key is \<open>(0, 0, 0, 0)\<close> when \<open>int\<close> rejects one of the parts between the dots, and
  otherwise the tuple of the integers read, of whatever length and sign.
\<close>

theorem listings_sorted_by_key:
  "sorted (map (\<lambda>x. ip_to_sortable_key (fst x)) (get_ips_by_subnet db cidr status_filter)) \<and>
   sorted (map ip_to_sortable_key (get_free_ips db cidr)) \<and>
   sorted (map (\<lambda>x. ip_to_sortable_key (fst x)) (search_ips db subnet status_arg keyword)) \<and>
   ip_to_sortable_key (str_ip a) =
     [int (a div 2 ^ 24 mod 256), int (a div 2 ^ 16 mod 256),
      int (a div 2 ^ 8 mod 256), int (a mod 256)] \<and>
   ((\<exists>p\<in>set (split CHR ''.'' ip). py_int p = None) \<longrightarrow>
      ip_to_sortable_key ip = [0, 0, 0, 0]) \<and>
   ((\<forall>p\<in>set (split CHR ''.'' ip). py_int p \<noteq> None) \<longrightarrow>
      ip_to_sortable_key ip = map (\<lambda>p. the (py_int p)) (split CHR ''.'' ip))"
  using get_ips_by_subnet_sorted [of db cidr status_filter] get_free_ips_sorted [of db cidr]
    search_ips_sorted [of db subnet status_arg keyword] ip_to_sortable_key_str_ip [of a]
    ip_to_sortable_key_cases [of ip]
  by auto

theorem listings_sorted_by_key_witness:
  "''x'' \<in> set (split CHR ''.'' ''10.0.x.1'') \<and> py_int ''x'' = None \<and>
   ip_to_sortable_key ''10.0.x.1'' = [0, 0, 0, 0] \<and>
   map py_int (split CHR ''.'' ''10.0.0.1'') = [Some 10, Some 0, Some 0, Some 1] \<and>
   ip_to_sortable_key ''10.0.0.1'' = [10, 0, 0, 1] \<and>
   sorted (map ip_to_sortable_key (get_free_ips example_db ''192.168.1.8/30''))"
proof -
  have a: "''x'' \<in> set (split CHR ''.'' ''10.0.x.1'')" "py_int ''x'' = None" by code_simp+
  have b: "map py_int (split CHR ''.'' ''10.0.0.1'') = [Some 10, Some 0, Some 0, Some 1]"
    by code_simp
  have b': "split CHR ''.'' ''10.0.0.1'' = [''10'', ''0'', ''0'', ''1'']" by code_simp
  note t1 = listings_sorted_by_key [of example_db "''192.168.1.8/30''" None None None None 0
    "''10.0.x.1''"]
  note t2 = listings_sorted_by_key [of example_db "''192.168.1.8/30''" None None None None 0
    "''10.0.0.1''"]
  have 1: "ip_to_sortable_key ''10.0.x.1'' = [0, 0, 0, 0]"
    using t1 a by blast
  have "\<forall>p\<in>set (split CHR ''.'' ''10.0.0.1''). py_int p \<noteq> None"
    using b unfolding b' by simp
  then have "ip_to_sortable_key ''10.0.0.1'' =
      map (\<lambda>p. the (py_int p)) (split CHR ''.'' ''10.0.0.1'')"
    using t2 by blast
  then have 2: "ip_to_sortable_key ''10.0.0.1'' = [10, 0, 0, 1]"
    using b unfolding b' by simp
  have 3: "sorted (map ip_to_sortable_key (get_free_ips example_db ''192.168.1.8/30''))"
    using t1 by blast
  show ?thesis using a b 1 2 3 by blast
qed

text \<open>
  Claim C8 as first stated fails on malformed text whose parts are all integers: the
  library rejects \<open>1.2.3\<close> and \<open>-1.0.0.0\<close> as addresses, the key of the first is the
  triple \<open>(1, 2, 3)\<close>, and the key of the second sorts below \<open>(0, 0, 0, 0)\<close>.
\<close>

theorem malformed_key_counterexample:
  "ip_int_from_string ''1.2.3'' = None \<and>
   ip_to_sortable_key ''1.2.3'' = [1, 2, 3] \<and>
   ip_to_sortable_key ''1.2.3'' \<noteq> [0, 0, 0, 0] \<and>
   ip_int_from_string ''-1.0.0.0'' = None \<and>
   ip_to_sortable_key ''-1.0.0.0'' = [- 1, 0, 0, 0] \<and>
   ip_to_sortable_key ''-1.0.0.0'' < [0, 0, 0, 0]"
  by code_simp

section \<open>Subnet creation\<close>

subsection \<open>The inserts\<close>


lemma insert_ip_Inl:
  "insert_ip clk ip sid st nts conn = Inl e \<Longrightarrow>
     e = IntegrityError \<and> ip \<in> addresses_of conn"
  by (auto simp: insert_ip_def split: if_splits)

lemma insert_ip_Inr:
  "insert_ip clk ip sid st nts conn = Inr conn' \<Longrightarrow>
     subnets conn' = subnets conn \<and> ip_history conn' = ip_history conn \<and>
     addresses_of conn' = insert ip (addresses_of conn) \<and> ip \<notin> addresses_of conn"
  by (auto simp: insert_ip_def split: if_splits)

lemma insert_ip_present:
  "ip \<in> addresses_of conn \<Longrightarrow> insert_ip clk ip sid st nts conn = Inl IntegrityError"
  by (simp add: insert_ip_def)

lemma insert_hosts_Inl:
  "insert_hosts clk sid hs (conn, t) = Inl e \<Longrightarrow> e = IntegrityError"
proof (induction hs arbitrary: conn t)
  case Nil
  then show ?case by simp
next
  case (Cons h hs)
  then show ?case
    by (auto split: sum.splits dest: insert_ip_Inl)
qed

lemma insert_hosts_Inr:
  "insert_hosts clk sid hs (conn, t) = Inr (conn', t') \<Longrightarrow>
     subnets conn' = subnets conn \<and> ip_history conn' = ip_history conn \<and>
     addresses_of conn' = addresses_of conn \<union> str_ip ` set hs \<and> t' = t + length hs"
proof (induction hs arbitrary: conn t)
  case Nil
  then show ?case by simp
next
  case (Cons h hs)
  from Cons.prems obtain c1 where
    c1: "insert_ip clk (str_ip h) sid Free None conn = Inr c1"
    and rest: "insert_hosts clk sid hs (c1, t + 1) = Inr (conn', t')"
    by (auto split: sum.splits)
  show ?case
    using Cons.IH [OF rest] insert_ip_Inr [OF c1] by auto
qed

lemma insert_hosts_present:
  "h \<in> set hs \<Longrightarrow> str_ip h \<in> addresses_of conn \<Longrightarrow>
     insert_hosts clk sid hs (conn, t) = Inl IntegrityError"
proof (induction hs arbitrary: conn t)
  case Nil
  then show ?case by simp
next
  case (Cons x hs)
  show ?case
  proof (cases "insert_ip clk (str_ip x) sid Free None conn")
    case (Inl e)
    then show ?thesis using insert_ip_Inl [OF Inl] by simp
  next
    case (Inr c1)
    from insert_ip_Inr [OF Inr] have new: "str_ip x \<notin> addresses_of conn"
      and sup: "addresses_of c1 = insert (str_ip x) (addresses_of conn)"
      by simp_all
    from new Cons.prems have "h \<in> set hs" by auto
    moreover from sup Cons.prems have "str_ip h \<in> addresses_of c1" by simp
    ultimately have "insert_hosts clk sid hs (c1, t + 1) = Inl IntegrityError"
      by (rule Cons.IH)
    then show ?thesis using Inr by simp
  qed
qed

lemma subnets_insert_subnet:
  "subnets (insert_subnet clk cidr desc gw dns conn) =
     subnets conn @ [\<lparr>s_id = Suc (subnets_seq conn), subnet_cidr = cidr, description = desc,
       gateway = gw, dns_server = dns, created_at = current_timestamp clk\<rparr>]"
  by (simp add: insert_subnet_def)

lemma addresses_insert_subnet [simp]:
  "ip_addresses (insert_subnet clk cidr desc gw dns conn) = ip_addresses conn"
  by (simp add: insert_subnet_def)

lemma find_cidr_iff:
  "(find (\<lambda>s. subnet_cidr s = cidr) xs \<noteq> None) = (cidr \<in> set (map subnet_cidr xs))"
  by (auto simp: find_None_iff)

subsection \<open>The outcomes of \<open>create_subnet\<close>\<close>

lemma create_subnet_invalid:
  "ip_network cidr = None \<Longrightarrow> create_subnet db clk cidr desc gw dns = (Inl ValidationError, db)"
  by (simp add: create_subnet_def)

lemma create_subnet_exists:
  "ip_network cidr = Some net \<Longrightarrow> cidr \<in> set (map subnet_cidr (subnets db)) \<Longrightarrow>
   create_subnet db clk cidr desc gw dns = (Inl DuplicateError, db)"
  using find_cidr_iff [of cidr "subnets db"]
  by (simp add: create_subnet_def transaction_def del: set_map)

lemma str_ip_nonempty: "str_ip a \<noteq> []"
  by (simp add: str_ip_def)

text \<open>
  With a valid CIDR that is not in the table, the body runs its three stages; the
  \<open>else\<close> branch of \<open>if broadcast_addr\<close> is never taken.
\<close>

lemma create_subnet_stages:
  assumes "ip_network cidr = Some net" and "cidr \<notin> set (map subnet_cidr (subnets db))"
  shows "create_subnet db clk cidr desc gw dns =
     (case insert_hosts clk (Suc (subnets_seq db)) (hosts net)
             (insert_subnet clk cidr desc gw dns db, 0) of
        Inl e \<Rightarrow> (Inl e, db)
      | Inr (conn2, total_ips) \<Rightarrow>
          (case insert_ip clk (str_ip (network_address net)) (Suc (subnets_seq db)) Reserved
                  (Some note_network_address) conn2 of
             Inl e \<Rightarrow> (Inl e, db)
           | Inr conn3 \<Rightarrow>
               (case insert_ip clk (str_ip (broadcast_address net)) (Suc (subnets_seq db))
                       Reserved (Some note_broadcast_address) conn3 of
                  Inl e \<Rightarrow> (Inl e, db)
                | Inr conn4 \<Rightarrow> (Inr (total_ips + 2), conn4))))"
proof -
  have nf: "find (\<lambda>s. subnet_cidr s = cidr) (subnets db) = None"
    using assms(2) find_cidr_iff [of cidr "subnets db"] by blast
  have sid: "subnets_seq (insert_subnet clk cidr desc gw dns db) = Suc (subnets_seq db)"
    by (simp add: insert_subnet_def)
  show ?thesis
    using assms(1) nf sid
    by (simp add: create_subnet_def transaction_def Let_def ipv4address_bool_def
          str_ip_nonempty split: sum.split prod.split)
qed

lemma create_subnet_failure_unchanged:
  assumes "fst (create_subnet db clk cidr desc gw dns) = Inl e"
  shows "snd (create_subnet db clk cidr desc gw dns) = db"
proof (cases "ip_network cidr")
  case None
  then show ?thesis by (simp add: create_subnet_invalid)
next
  case (Some net)
  show ?thesis
  proof (cases "cidr \<in> set (map subnet_cidr (subnets db))")
    case True
    then show ?thesis using Some by (simp add: create_subnet_exists)
  next
    case False
    show ?thesis
      using assms unfolding create_subnet_stages [OF Some False]
      by (simp split: sum.splits prod.splits)
  qed
qed

lemma create_subnet_error_kinds:
  assumes "ip_network cidr = Some net" and "cidr \<notin> set (map subnet_cidr (subnets db))"
    and "fst (create_subnet db clk cidr desc gw dns) = Inl e"
  shows "e = IntegrityError"
  using assms(3) unfolding create_subnet_stages [OF assms(1,2)]
  by (auto split: sum.splits prod.splits dest: insert_hosts_Inl insert_ip_Inl)

lemma create_subnet_success:
  assumes "create_subnet db clk cidr desc gw dns = (Inr n, db1)"
  shows "ip_network cidr \<noteq> None \<and> cidr \<in> set (map subnet_cidr (subnets db1))"
proof (cases "ip_network cidr")
  case None
  then show ?thesis using assms by (simp add: create_subnet_invalid)
next
  case (Some net)
  show ?thesis
  proof (cases "cidr \<in> set (map subnet_cidr (subnets db))")
    case True
    then show ?thesis using Some assms by (simp add: create_subnet_exists)
  next
    case False
    from assms obtain conn2 t conn3 where
      h: "insert_hosts clk (Suc (subnets_seq db)) (hosts net)
            (insert_subnet clk cidr desc gw dns db, 0) = Inr (conn2, t)"
      and n: "insert_ip clk (str_ip (network_address net)) (Suc (subnets_seq db)) Reserved
            (Some note_network_address) conn2 = Inr conn3"
      and b: "insert_ip clk (str_ip (broadcast_address net)) (Suc (subnets_seq db)) Reserved
            (Some note_broadcast_address) conn3 = Inr db1"
      unfolding create_subnet_stages [OF Some False]
      by (auto split: sum.splits prod.splits)
    have "subnets db1 = subnets (insert_subnet clk cidr desc gw dns db)"
      using insert_hosts_Inr [OF h] insert_ip_Inr [OF n] insert_ip_Inr [OF b] by simp
    then show ?thesis using Some by (simp add: subnets_insert_subnet)
  qed
qed

lemma create_subnet_overlap:
  assumes net: "ip_network cidr = Some net"
    and new: "cidr \<notin> set (map subnet_cidr (subnets db))"
    and a: "a \<in> set (hosts net) \<union> {network_address net, broadcast_address net}"
    and present: "str_ip a \<in> addresses_of db"
  shows "create_subnet db clk cidr desc gw dns = (Inl IntegrityError, db)"
proof -
  let ?sid = "Suc (subnets_seq db)"
  let ?conn1 = "insert_subnet clk cidr desc gw dns db"
  have p1: "str_ip a \<in> addresses_of ?conn1" using present by simp
  show ?thesis
  proof (cases "insert_hosts clk ?sid (hosts net) (?conn1, 0)")
    case (Inl e)
    then show ?thesis
      using insert_hosts_Inl [OF Inl] unfolding create_subnet_stages [OF net new] by simp
  next
    case (Inr res)
    obtain conn2 t where res: "res = (conn2, t)" by (cases res)
    note h = Inr [unfolded res]
    have nh: "a \<notin> set (hosts net)"
      using insert_hosts_present [of a "hosts net" ?conn1 clk ?sid 0] p1 h by auto
    have p2: "str_ip a \<in> addresses_of conn2"
      using insert_hosts_Inr [OF h] p1 by auto
    show ?thesis
    proof (cases "a = network_address net")
      case True
      then show ?thesis
        using h insert_ip_present [of "str_ip a" conn2] p2
        unfolding create_subnet_stages [OF net new] by simp
    next
      case False
      then have ab: "a = broadcast_address net" using a nh by auto
      show ?thesis
      proof (cases "insert_ip clk (str_ip (network_address net)) ?sid Reserved
                      (Some note_network_address) conn2")
        case (Inl e)
        then show ?thesis
          using h insert_ip_Inl [OF Inl] unfolding create_subnet_stages [OF net new] by simp
      next
        case (Inr conn3)
        have "str_ip a \<in> addresses_of conn3"
          using insert_ip_Inr [OF Inr] p2 by auto
        then show ?thesis
          using h Inr ab insert_ip_present [of "str_ip a" conn3]
          unfolding create_subnet_stages [OF net new] by simp
      qed
    qed
  qed
qed

subsection \<open>Duplicate CIDR text\<close>

text \<open>
  Claim C9. After a successful \<open>create_subnet\<close>, a second call with the same CIDR text
  fails with \<open>DuplicateError\<close> and returns the database as it was, so the number of
  address rows is unchanged. The duplicate check compares the text only: the call fails
  with \<open>DuplicateError\<close> exactly when the (valid) text is already in the subnet table, and
  no comparison of ranges takes place.
\<close>

theorem create_subnet_duplicate:
  "(create_subnet db clk cidr desc gw dns = (Inr n, db1) \<longrightarrow>
      create_subnet db1 clk2 cidr desc2 gw2 dns2 = (Inl DuplicateError, db1)) \<and>
   ((fst (create_subnet db clk cidr desc gw dns) = Inl DuplicateError) =
      (ip_network cidr \<noteq> None \<and> cidr \<in> set (map subnet_cidr (subnets db))))"
proof (intro conjI impI)
  assume "create_subnet db clk cidr desc gw dns = (Inr n, db1)"
  from create_subnet_success [OF this]
  show "create_subnet db1 clk2 cidr desc2 gw2 dns2 = (Inl DuplicateError, db1)"
    by (auto simp: create_subnet_exists)
next
  show "(fst (create_subnet db clk cidr desc gw dns) = Inl DuplicateError) =
      (ip_network cidr \<noteq> None \<and> cidr \<in> set (map subnet_cidr (subnets db)))"
  proof (cases "ip_network cidr")
    case None
    then show ?thesis by (simp add: create_subnet_invalid)
  next
    case (Some net)
    show ?thesis
    proof (cases "cidr \<in> set (map subnet_cidr (subnets db))")
      case True
      then show ?thesis using Some by (simp add: create_subnet_exists)
    next
      case False
      then show ?thesis
        using Some create_subnet_error_kinds [OF Some False, of clk desc gw dns DuplicateError]
        by auto
    qed
  qed
qed

theorem create_subnet_duplicate_witness:
  "create_subnet empty_database example_clock ''192.168.1.8/30'' ''office'' ''192.168.1.9''
      ''192.168.1.9'' = (Inr 4, example_db) \<and>
   create_subnet example_db example_clock ''192.168.1.8/30'' ''again'' [] [] =
      (Inl DuplicateError, example_db) \<and>
   length (ip_addresses (snd (create_subnet example_db example_clock ''192.168.1.8/30''
      ''again'' [] []))) = length (ip_addresses example_db) \<and>
   ''192.168.1.8/29'' \<notin> set (map subnet_cidr (subnets example_db)) \<and>
   fst (create_subnet example_db example_clock ''192.168.1.8/29'' [] [] []) \<noteq> Inl DuplicateError"
proof -
  have "fst (create_subnet empty_database example_clock ''192.168.1.8/30'' ''office''
      ''192.168.1.9'' ''192.168.1.9'') = Inr 4"
    by code_simp
  then have a: "create_subnet empty_database example_clock ''192.168.1.8/30'' ''office''
      ''192.168.1.9'' ''192.168.1.9'' = (Inr 4, example_db)"
    by (simp add: example_db_def prod_eq_iff)
  have b: "''192.168.1.8/29'' \<notin> set (map subnet_cidr (subnets example_db))"
    by code_simp
  note t1 = create_subnet_duplicate [of empty_database example_clock "''192.168.1.8/30''"
      "''office''" "''192.168.1.9''" "''192.168.1.9''" 4 example_db example_clock
      "''again''" "[]" "[]"]
  note t2 = create_subnet_duplicate [of example_db example_clock "''192.168.1.8/29''"
      "[]" "[]" "[]" 4 example_db example_clock "[]" "[]" "[]"]
  have 1: "create_subnet example_db example_clock ''192.168.1.8/30'' ''again'' [] [] =
      (Inl DuplicateError, example_db)"
    using t1 a by blast
  have 2: "fst (create_subnet example_db example_clock ''192.168.1.8/29'' [] [] []) \<noteq>
      Inl DuplicateError"
    using t2 b by blast
  show ?thesis using a b 1 2 by simp
qed

subsection \<open>No partial creation\<close>

text \<open>
  Claim C10. Whenever \<open>create_subnet\<close> returns a failure, the stored database is the one
  before the call. In particular, when the CIDR is valid and new but one of the
  addresses to generate (a host, the network address or the broadcast address) is
  already in the inventory, the insert of that address raises after the subnet row and
  possibly some address rows were written inside the transaction; the call returns
  \<open>IntegrityError\<close> and neither the subnet row nor any of those address rows is stored.
\<close>

theorem create_subnet_atomic:
  "(fst (create_subnet db clk cidr desc gw dns) = Inl e \<longrightarrow>
      snd (create_subnet db clk cidr desc gw dns) = db) \<and>
   (\<forall>net a. ip_network cidr = Some net \<and> cidr \<notin> set (map subnet_cidr (subnets db)) \<and>
       a \<in> set (hosts net) \<union> {network_address net, broadcast_address net} \<and>
       str_ip a \<in> set (map ip_address (ip_addresses db)) \<longrightarrow>
      create_subnet db clk cidr desc gw dns = (Inl IntegrityError, db))"
  using create_subnet_failure_unchanged [of db clk cidr desc gw dns e]
    create_subnet_overlap [of cidr _ db _ clk desc gw dns]
  by blast

theorem create_subnet_atomic_witness:
  "ip_network ''192.168.1.0/28'' = Some \<lparr>network_address = 3232235776, prefixlen = 28\<rparr> \<and>
   ''192.168.1.0/28'' \<notin> set (map subnet_cidr (subnets example_db)) \<and>
   3232235784 \<in> set (hosts \<lparr>network_address = 3232235776, prefixlen = 28\<rparr>) \<and>
   str_ip 3232235784 = ''192.168.1.8'' \<and>
   str_ip 3232235784 \<in> set (map ip_address (ip_addresses example_db)) \<and>
   create_subnet example_db example_clock ''192.168.1.0/28'' ''lab'' [] [] =
     (Inl IntegrityError, example_db)"
proof -
  let ?net = "\<lparr>network_address = 3232235776, prefixlen = 28\<rparr>"
  have a: "ip_network ''192.168.1.0/28'' = Some ?net" by code_simp
  have b: "''192.168.1.0/28'' \<notin> set (map subnet_cidr (subnets example_db))" by code_simp
  have c: "3232235784 \<in> set (hosts ?net)" by code_simp
  have d: "str_ip 3232235784 = ''192.168.1.8''" by code_simp
  have e: "str_ip 3232235784 \<in> set (map ip_address (ip_addresses example_db))" by code_simp
  have "create_subnet example_db example_clock ''192.168.1.0/28'' ''lab'' [] [] =
     (Inl IntegrityError, example_db)"
    using create_subnet_atomic [of example_db example_clock "''192.168.1.0/28''"
        "''lab''" "[]" "[]" IntegrityError] a b c e
    by blast
  then show ?thesis using a b c d e by blast
qed

subsection \<open>The two longest prefixes\<close>

lemma create_subnet_long_prefix_fails:
  assumes net: "ip_network cidr = Some net"
    and p: "prefixlen net = 31 \<or> prefixlen net = 32"
  shows "\<exists>e. create_subnet db clk cidr desc gw dns = (Inl e, db)"
proof (cases "cidr \<in> set (map subnet_cidr (subnets db))")
  case True
  then show ?thesis using net by (simp add: create_subnet_exists)
next
  case False
  let ?sid = "Suc (subnets_seq db)"
  let ?conn1 = "insert_subnet clk cidr desc gw dns db"
  have mem: "network_address net \<in> set (hosts net)"
    using p by (auto simp: hosts_def broadcast_address_def)
  show ?thesis
  proof (cases "insert_hosts clk ?sid (hosts net) (?conn1, 0)")
    case (Inl e)
    then show ?thesis unfolding create_subnet_stages [OF net False] by simp
  next
    case (Inr res)
    obtain conn2 t where res: "res = (conn2, t)" by (cases res)
    note h = Inr [unfolded res]
    have "str_ip (network_address net) \<in> addresses_of conn2"
      using insert_hosts_Inr [OF h] mem by auto
    then show ?thesis
      using h insert_ip_present [of "str_ip (network_address net)" conn2]
      unfolding create_subnet_stages [OF net False] by simp
  qed
qed

text \<open>
  Claim C4 does not hold of the code for prefix lengths 31 and 32. \<open>hosts()\<close> of such a
  network contains the network address itself, so the insert of the network address as
  \<open>Reserved\<close> violates the uniqueness of \<open>ip_address\<close>: the call fails and stores
  nothing, where the claim has the network address reserved and a total of usable hosts
  plus one. (The branch \<open>else: total_ips += 1\<close> of the source is never reached.)
\<close>

theorem create_subnet_slash_31:
  "ip_network ''10.0.0.0/31'' = Some \<lparr>network_address = 167772160, prefixlen = 31\<rparr> \<and>
   map str_ip (hosts \<lparr>network_address = 167772160, prefixlen = 31\<rparr>) =
     [''10.0.0.0'', ''10.0.0.1''] \<and>
   create_subnet empty_database example_clock ''10.0.0.0/31'' ''link'' [] [] =
     (Inl IntegrityError, empty_database)"
  by code_simp

subsection \<open>Prefix lengths up to 30\<close>

lemma octets_value:
  "(a::nat) mod 2 ^ 32 =
     (a div 2 ^ 24 mod 256) * 2 ^ 24 + (a div 2 ^ 16 mod 256) * 2 ^ 16 +
     (a div 2 ^ 8 mod 256) * 2 ^ 8 + a mod 256"
proof -
  have 1: "a mod 2 ^ 32 = (a div 2 ^ 24 mod 2 ^ 8) * 2 ^ 24 + a mod 2 ^ 24"
    using mod_mult2_eq [of a "2 ^ 24" "2 ^ 8"] by (simp add: algebra_simps)
  have 2: "a mod 2 ^ 24 = (a div 2 ^ 16 mod 2 ^ 8) * 2 ^ 16 + a mod 2 ^ 16"
    using mod_mult2_eq [of a "2 ^ 16" "2 ^ 8"] by (simp add: algebra_simps)
  have 3: "a mod 2 ^ 16 = (a div 2 ^ 8 mod 2 ^ 8) * 2 ^ 8 + a mod 2 ^ 8"
    using mod_mult2_eq [of a "2 ^ 8" "2 ^ 8"] by (simp add: algebra_simps)
  show ?thesis using 1 2 3 by simp
qed

lemma str_ip_inj:
  assumes "a < 2 ^ 32" and "b < 2 ^ 32" and "str_ip a = str_ip b"
  shows "a = b"
proof -
  have "ip_to_sortable_key (str_ip a) = ip_to_sortable_key (str_ip b)"
    using assms(3) by simp
  then have "a div 2 ^ 24 mod 256 = b div 2 ^ 24 mod 256"
    "a div 2 ^ 16 mod 256 = b div 2 ^ 16 mod 256"
    "a div 2 ^ 8 mod 256 = b div 2 ^ 8 mod 256" "a mod 256 = b mod 256"
    unfolding ip_to_sortable_key_str_ip by simp_all
  then have "a mod 2 ^ 32 = b mod 2 ^ 32"
    unfolding octets_value [of a] octets_value [of b] by simp
  then show ?thesis using assms(1,2) by simp
qed

lemma parse_octet_le: "parse_octet s = Some n \<Longrightarrow> n \<le> 255"
  by (auto simp: parse_octet_def split: if_splits)

lemma ip_int_from_string_less:
  assumes "ip_int_from_string s = Some a"
  shows "a < 2 ^ 32"
proof -
  let ?os = "split CHR ''.'' s"
  from assms have len: "length ?os = 4"
    and th: "map_option (foldl (\<lambda>a b. a * 256 + b) 0) (those (map parse_octet ?os)) = Some a"
    by (auto simp: ip_int_from_string_def Let_def split: if_splits)
  from len obtain w x y z where os: "?os = [w, x, y, z]"
    by (auto simp: length_Suc_conv numeral_eq_Suc)
  from th obtain ns where ns: "those (map parse_octet ?os) = Some ns"
    and a: "a = foldl (\<lambda>a b. a * 256 + b) 0 ns"
    by auto
  from ns have all: "\<forall>p\<in>set ?os. parse_octet p \<noteq> None"
    and nseq: "ns = map (\<lambda>p. the (parse_octet p)) ?os"
    by (auto simp: those_map split: if_splits)
  have "the (parse_octet w) \<le> 255" "the (parse_octet x) \<le> 255"
    "the (parse_octet y) \<le> 255" "the (parse_octet z) \<le> 255"
    using all parse_octet_le unfolding os by auto
  then show ?thesis unfolding a nseq os by simp
qed

lemma find_upt_less: "find P [0..<n] = Some p \<Longrightarrow> p < n"
  by (auto simp: find_Some_iff)

lemma make_netmask_le: "make_netmask arg = Some p \<Longrightarrow> p \<le> 32"
  by (auto simp: make_netmask_def prefix_from_prefix_string_def prefix_from_ip_string_def
        prefix_from_ip_int_def split: option.splits if_splits dest!: find_upt_less)

lemma ip_network_facts:
  assumes "ip_network cidr = Some net"
  shows "network_address net < 2 ^ 32" and "prefixlen net \<le> 32"
    and "network_address net mod 2 ^ (32 - prefixlen net) = 0"
proof -
  let ?parts = "split CHR ''/'' cidr"
  from assms obtain packed p where
    packed: "ip_int_from_string (hd ?parts) = Some packed"
    and p: "(if length ?parts = 2 then make_netmask (?parts ! 1) else Some 32) = Some p"
    and al: "packed mod 2 ^ (32 - p) = 0"
    and net: "net = \<lparr>network_address = packed, prefixlen = p\<rparr>"
    by (auto simp: ip_network_def Let_def split: if_splits option.splits)
  show "network_address net < 2 ^ 32"
    using ip_int_from_string_less [OF packed] net by simp
  show "prefixlen net \<le> 32"
    using p net make_netmask_le by (auto split: if_splits)
  show "network_address net mod 2 ^ (32 - prefixlen net) = 0"
    using al net by simp
qed

lemma network_range:
  assumes "ip_network cidr = Some net"
  shows "network_address net + 2 ^ (32 - prefixlen net) \<le> 2 ^ 32"
proof -
  let ?n = "network_address net" and ?p = "prefixlen net"
  note f = ip_network_facts [OF assms]
  from f(3) obtain k where k: "?n = k * 2 ^ (32 - ?p)"
    by (metis mod_eq_0_iff_dvd dvd_def mult.commute)
  have pw: "(2::nat) ^ 32 = 2 ^ ?p * 2 ^ (32 - ?p)"
    using f(2) by (simp flip: power_add)
  have "k < 2 ^ ?p"
    using f(1) unfolding k pw by simp
  then have "Suc k * 2 ^ (32 - ?p) \<le> 2 ^ ?p * 2 ^ (32 - ?p)"
    by (intro mult_le_mono1) simp
  then show ?thesis unfolding k pw by simp
qed

lemma insert_hosts_fresh:
  assumes "distinct (map str_ip hs)" and "\<forall>h\<in>set hs. str_ip h \<notin> addresses_of conn"
  shows "\<exists>conn' new. insert_hosts clk sid hs (conn, t) = Inr (conn', t + length hs) \<and>
           ip_addresses conn' = ip_addresses conn @ new \<and>
           map ip_address new = map str_ip hs \<and>
           (\<forall>r\<in>set new. status r = Free \<and> subnet_id r = Some sid \<and> ip_notes r = None)"
  using assms
proof (induction hs arbitrary: conn t)
  case Nil
  then show ?case by simp
next
  case (Cons h hs)
  let ?row = "\<lparr>ip_id = Suc (ip_addresses_seq conn), ip_address = str_ip h,
                subnet_id = Some sid, status = Free, allocated_to = None,
                mac_address = None, device_type = None, allocated_at = None,
                ip_notes = None, last_updated = current_timestamp clk\<rparr>"
  let ?c1 = "conn\<lparr>ip_addresses := ip_addresses conn @ [?row],
                  ip_addresses_seq := Suc (ip_addresses_seq conn)\<rparr>"
  have ins: "insert_ip clk (str_ip h) sid Free None conn = Inr ?c1"
    using Cons.prems(2) by (simp add: insert_ip_def)
  have d: "distinct (map str_ip hs)" using Cons.prems(1) by simp
  have fr: "\<forall>x\<in>set hs. str_ip x \<notin> addresses_of ?c1"
  proof
    fix x assume x: "x \<in> set hs"
    then have "str_ip x \<in> str_ip ` set hs" by (rule imageI)
    moreover have "str_ip h \<notin> str_ip ` set hs" using Cons.prems(1) by simp
    ultimately have "str_ip x \<noteq> str_ip h" by metis
    then show "str_ip x \<notin> addresses_of ?c1" using Cons.prems(2) x by simp
  qed
  from Cons.IH [OF d fr, of "t + 1"] obtain conn' new where
    r: "insert_hosts clk sid hs (?c1, t + 1) = Inr (conn', t + 1 + length hs)"
    and a: "ip_addresses conn' = ip_addresses ?c1 @ new"
    and m: "map ip_address new = map str_ip hs"
    and s: "\<forall>r\<in>set new. status r = Free \<and> subnet_id r = Some sid \<and> ip_notes r = None"
    by blast
  have 1: "insert_hosts clk sid (h # hs) (conn, t) = Inr (conn', t + length (h # hs))"
    using ins r by simp
  have 2: "ip_addresses conn' = ip_addresses conn @ (?row # new)"
    using a by simp
  have 3: "map ip_address (?row # new) = map str_ip (h # hs)"
    using m by simp
  have 4: "\<forall>r\<in>set (?row # new). status r = Free \<and> subnet_id r = Some sid \<and> ip_notes r = None"
    using s by simp
  show ?case using 1 2 3 4 by blast
qed

lemma insert_ip_fresh:
  assumes "ip \<notin> addresses_of conn"
  shows "insert_ip clk ip sid st nts conn =
           Inr (conn\<lparr>ip_addresses := ip_addresses conn @
                  [\<lparr>ip_id = Suc (ip_addresses_seq conn), ip_address = ip,
                    subnet_id = Some sid, status = st, allocated_to = None,
                    mac_address = None, device_type = None, allocated_at = None,
                    ip_notes = nts, last_updated = current_timestamp clk\<rparr>],
                ip_addresses_seq := Suc (ip_addresses_seq conn)\<rparr>)"
  using assms by (simp add: insert_ip_def)

text \<open>
  For a valid CIDR of prefix length at most 30 that is new and whose addresses the
  inventory does not hold, \<open>create_subnet\<close> succeeds: the rows it adds are the usable
  hosts with status \<open>Free\<close>, then the network address and the broadcast address with
  status \<open>Reserved\<close>, and the total it reports is the size of the network, usable hosts
  plus two.
\<close>

lemma create_subnet_short_prefix:
  assumes net: "ip_network cidr = Some net"
    and p: "prefixlen net \<le> 30"
    and new: "cidr \<notin> set (map subnet_cidr (subnets db))"
    and fresh: "\<forall>a\<in>{network_address net .. broadcast_address net}.
                  str_ip a \<notin> addresses_of db"
  shows "\<exists>db1 rows. create_subnet db clk cidr desc gw dns =
             (Inr (length (hosts net) + 2), db1) \<and>
           length (hosts net) + 2 = 2 ^ (32 - prefixlen net) \<and>
           ip_addresses db1 = ip_addresses db @ rows \<and>
           map (\<lambda>r. (ip_address r, status r)) rows =
             map (\<lambda>a. (str_ip a, Free)) (hosts net) @
             [(str_ip (network_address net), Reserved),
              (str_ip (broadcast_address net), Reserved)]"
proof -
  let ?n = "network_address net" and ?b = "broadcast_address net"
  let ?sid = "Suc (subnets_seq db)"
  let ?conn1 = "insert_subnet clk cidr desc gw dns db"
  have size: "(4::nat) \<le> 2 ^ (32 - prefixlen net)"
    using p power_increasing [of 2 "32 - prefixlen net" "2::nat"] by simp
  have range: "?n + 2 ^ (32 - prefixlen net) \<le> 2 ^ 32"
    by (rule network_range [OF net])
  have b: "?b = ?n + 2 ^ (32 - prefixlen net) - 1"
    by (simp add: broadcast_address_def)
  have hosts: "hosts net = [?n + 1 ..< ?b]"
    using p by (simp add: hosts_def)
  have len: "length (hosts net) + 2 = 2 ^ (32 - prefixlen net)"
    using size unfolding hosts b by simp
  have lt: "\<forall>a\<in>{?n .. ?b}. a < 2 ^ 32"
    using range size unfolding b by auto
  have inj: "inj_on str_ip {?n .. ?b}"
    using lt by (auto intro!: inj_onI str_ip_inj)
  have sub: "set (hosts net) \<subseteq> {?n .. ?b}"
    unfolding hosts by auto
  have d: "distinct (map str_ip (hosts net))"
    unfolding distinct_map using inj_on_subset [OF inj sub] by (simp add: hosts)
  have f1: "\<forall>h\<in>set (hosts net). str_ip h \<notin> addresses_of ?conn1"
    using fresh sub by auto
  from insert_hosts_fresh [OF d f1, of clk ?sid 0] obtain conn2 hrows where
    h: "insert_hosts clk ?sid (hosts net) (?conn1, 0) = Inr (conn2, length (hosts net))"
    and a2: "ip_addresses conn2 = ip_addresses db @ hrows"
    and m2: "map ip_address hrows = map str_ip (hosts net)"
    and s2: "\<forall>r\<in>set hrows. status r = Free \<and> subnet_id r = Some ?sid \<and> ip_notes r = None"
    by auto
  have nb: "?n \<in> {?n .. ?b}" "?b \<in> {?n .. ?b}" "?n \<noteq> ?b"
    using size unfolding b by auto
  have n_not_host: "?n \<notin> set (hosts net)" "?b \<notin> set (hosts net)"
    unfolding hosts by auto
  have "str_ip ?n \<notin> str_ip ` set (hosts net)"
    using inj n_not_host(1) nb(1) sub by (auto dest!: inj_onD)
  then have f2: "str_ip ?n \<notin> addresses_of conn2"
    using fresh nb(1) m2 a2 by (auto simp flip: set_map)
  let ?nrow = "\<lparr>ip_id = Suc (ip_addresses_seq conn2), ip_address = str_ip ?n,
                subnet_id = Some ?sid, status = Reserved, allocated_to = None,
                mac_address = None, device_type = None, allocated_at = None,
                ip_notes = Some note_network_address,
                last_updated = current_timestamp clk\<rparr>"
  let ?conn3 = "conn2\<lparr>ip_addresses := ip_addresses conn2 @ [?nrow],
                  ip_addresses_seq := Suc (ip_addresses_seq conn2)\<rparr>"
  have i3: "insert_ip clk (str_ip ?n) ?sid Reserved (Some note_network_address) conn2 =
      Inr ?conn3"
    by (rule insert_ip_fresh [OF f2])
  have "str_ip ?b \<notin> str_ip ` set (hosts net)"
    using inj n_not_host(2) nb(2) sub by (auto dest!: inj_onD)
  moreover have "str_ip ?b \<noteq> str_ip ?n"
    using inj nb by (auto dest!: inj_onD)
  ultimately have f3: "str_ip ?b \<notin> addresses_of ?conn3"
    using fresh nb(2) m2 a2 by (auto simp flip: set_map)
  let ?brow = "\<lparr>ip_id = Suc (ip_addresses_seq ?conn3), ip_address = str_ip ?b,
                subnet_id = Some ?sid, status = Reserved, allocated_to = None,
                mac_address = None, device_type = None, allocated_at = None,
                ip_notes = Some note_broadcast_address,
                last_updated = current_timestamp clk\<rparr>"
  let ?conn4 = "?conn3\<lparr>ip_addresses := ip_addresses ?conn3 @ [?brow],
                  ip_addresses_seq := Suc (ip_addresses_seq ?conn3)\<rparr>"
  have i4: "insert_ip clk (str_ip ?b) ?sid Reserved (Some note_broadcast_address) ?conn3 =
      Inr ?conn4"
    by (rule insert_ip_fresh [OF f3])
  have res: "create_subnet db clk cidr desc gw dns = (Inr (length (hosts net) + 2), ?conn4)"
    unfolding create_subnet_stages [OF net new] using h i3 i4 by simp
  have rows: "ip_addresses ?conn4 = ip_addresses db @ (hrows @ [?nrow, ?brow])"
    using a2 by simp
  have "map (\<lambda>r. (ip_address r, status r)) hrows = map (\<lambda>x. (x, Free)) (map ip_address hrows)"
    using s2 by (simp add: comp_def)
  then have "map (\<lambda>r. (ip_address r, status r)) hrows = map (\<lambda>a. (str_ip a, Free)) (hosts net)"
    unfolding m2 by (simp add: comp_def)
  then have view: "map (\<lambda>r. (ip_address r, status r)) (hrows @ [?nrow, ?brow]) =
      map (\<lambda>a. (str_ip a, Free)) (hosts net) @ [(str_ip ?n, Reserved), (str_ip ?b, Reserved)]"
    by simp
  show ?thesis using res len rows view by blast
qed

lemma length_filter_status:
  "length (filter (\<lambda>r. status r = s) rows) =
     length (filter (\<lambda>x. snd x = s) (map (\<lambda>r. (ip_address r, status r)) rows))"
  by (simp add: filter_map comp_def)

text \<open>
  The example of claim C4: on an empty database, \<open>192.168.1.0/24\<close> yields a total of
  256 addresses, 254 of them \<open>Free\<close> and 2 \<open>Reserved\<close>.
\<close>

lemma create_subnet_slash_24:
  "\<exists>db1. create_subnet empty_database clk ''192.168.1.0/24'' desc gw dns = (Inr 256, db1) \<and>
     length (ip_addresses db1) = 256 \<and>
     length (filter (\<lambda>r. status r = Free) (ip_addresses db1)) = 254 \<and>
     length (filter (\<lambda>r. status r = Reserved) (ip_addresses db1)) = 2"
proof -
  let ?net = "\<lparr>network_address = 3232235776, prefixlen = 24\<rparr>"
  have net: "ip_network ''192.168.1.0/24'' = Some ?net" by code_simp
  have hl: "length (hosts ?net) = 254"
    by (simp add: hosts_def broadcast_address_def)
  from create_subnet_short_prefix [OF net, of empty_database clk desc gw dns]
  obtain db1 rows where
    r: "create_subnet empty_database clk ''192.168.1.0/24'' desc gw dns =
          (Inr (length (hosts ?net) + 2), db1)"
    and a: "ip_addresses db1 = ip_addresses empty_database @ rows"
    and v: "map (\<lambda>r. (ip_address r, status r)) rows =
             map (\<lambda>a. (str_ip a, Free)) (hosts ?net) @
             [(str_ip (network_address ?net), Reserved),
              (str_ip (broadcast_address ?net), Reserved)]"
    by (auto simp: empty_database_def)
  have rows: "ip_addresses db1 = rows" using a by (simp add: empty_database_def)
  have "length rows = length (map (\<lambda>r. (ip_address r, status r)) rows)" by simp
  then have 1: "length rows = 256" unfolding v using hl by simp
  have 2: "length (filter (\<lambda>r. status r = Free) rows) = 254"
    unfolding length_filter_status v using hl by (simp add: filter_map comp_def)
  have 3: "length (filter (\<lambda>r. status r = Reserved) rows) = 2"
    unfolding length_filter_status v by (simp add: filter_map comp_def)
  show ?thesis using r hl 1 2 3 rows by auto
qed

section \<open>Status changes and the history ledger\<close>

lemma status_changed_same [simp]: "\<not> status_changed db db ip"
  by (simp add: status_changed_def split: option.split)

lemma status_changed_only_there:
  assumes "\<And>r. ip_address (f r) = ip_address r"
    and "status_changed db (insert_history clk ip act old new who nts (update_ip f ip db)) ip'"
  shows "ip' = ip"
proof (rule ccontr)
  assume "ip' \<noteq> ip"
  then have "select_ip (insert_history clk ip act old new who nts (update_ip f ip db)) ip' =
      select_ip db ip'"
    using assms(1) by (simp add: select_ip_update_ip)
  then show False
    using assms(2) by (simp add: status_changed_def split: option.splits)
qed

lemma import_ip_row_history:
  "ip_history (fst (import_ip_row clk row acc)) = ip_history (fst acc)"
  by (cases acc) (simp add: import_ip_row_def Let_def split: option.split)

lemma fold_import_ip_row_history:
  "ip_history (fst (fold (import_ip_row clk) rows acc)) = ip_history (fst acc)"
  by (induction rows arbitrary: acc) (simp_all add: import_ip_row_history)

lemma import_ips_from_csv_history:
  "ip_history (snd (import_ips_from_csv db clk rows)) = ip_history db"
  using fold_import_ip_row_history [of clk rows "(db, 0, [])"]
  by (cases "fold (import_ip_row clk) rows (db, 0, [])") (simp add: import_ips_from_csv_def)

lemma allocate_ip_logs_change:
  assumes "status_changed db (snd (allocate_ip db clk ip to mac dev nts)) ip'"
  shows "ip' = ip \<and>
     (\<exists>e. ip_history (snd (allocate_ip db clk ip to mac dev nts)) = ip_history db @ [e] \<and>
        h_ip_address e = ip \<and> action e = ''allocate'' \<and>
        Some (old_status e) = map_option status (select_ip db ip) \<and>
        Some (new_status e) =
          map_option status (select_ip (snd (allocate_ip db clk ip to mac dev nts)) ip))"
proof (cases "select_ip db ip")
  case None
  then show ?thesis using assms by (simp add: allocate_ip_not_found)
next
  case (Some r)
  show ?thesis
  proof (cases "status r = Free")
    case False
    then show ?thesis using assms Some by (simp add: allocate_ip_not_free)
  next
    case True
    let ?f = "\<lambda>r. r\<lparr>status := Used, allocated_to := Some to,
             mac_address := Some mac, device_type := Some dev,
             allocated_at := Some (datetime_now clk), ip_notes := Some nts,
             last_updated := current_timestamp clk\<rparr>"
    have eq: "snd (allocate_ip db clk ip to mac dev nts) =
        insert_history clk ip ''allocate'' Free Used to nts (update_ip ?f ip db)"
      using Some True by (simp add: allocate_ip_free)
    have "ip' = ip"
      using assms unfolding eq by (rule status_changed_only_there [rotated]) simp
    moreover have "select_ip (snd (allocate_ip db clk ip to mac dev nts)) ip = Some (?f r)"
      unfolding eq using Some by (simp add: select_ip_update_ip)
    ultimately show ?thesis
      using Some True history_entry_appended [of clk ip "''allocate''" Free Used to nts "update_ip ?f ip db"]
      unfolding eq by auto
  qed
qed

lemma release_ip_logs_change:
  assumes "status_changed db (snd (release_ip db clk ip nts)) ip'"
  shows "ip' = ip \<and>
     (\<exists>e. ip_history (snd (release_ip db clk ip nts)) = ip_history db @ [e] \<and>
        h_ip_address e = ip \<and> action e = ''release'' \<and>
        Some (old_status e) = map_option status (select_ip db ip) \<and>
        Some (new_status e) = map_option status (select_ip (snd (release_ip db clk ip nts)) ip))"
proof (cases "select_ip db ip")
  case None
  then show ?thesis using assms by (simp add: release_ip_not_found)
next
  case (Some r)
  let ?f = "\<lambda>r. r\<lparr>status := Free, allocated_to := None,
             mac_address := None, device_type := None,
             allocated_at := None, ip_notes := Some [],
             last_updated := current_timestamp clk\<rparr>"
  have eq: "snd (release_ip db clk ip nts) =
      insert_history clk ip ''release'' (status r) Free ''system'' nts (update_ip ?f ip db)"
    using Some by (simp add: release_ip_found)
  have "ip' = ip"
    using assms unfolding eq by (rule status_changed_only_there [rotated]) simp
  moreover have "select_ip (snd (release_ip db clk ip nts)) ip = Some (?f r)"
    unfolding eq using Some by (simp add: select_ip_update_ip)
  ultimately show ?thesis
    using Some history_entry_appended [of clk ip "''release''" "status r" Free "''system''" nts "update_ip ?f ip db"]
    unfolding eq by auto
qed

lemma reserve_ip_logs_change:
  assumes "status_changed db (snd (reserve_ip db clk ip nts)) ip'"
  shows "ip' = ip \<and>
     (\<exists>e. ip_history (snd (reserve_ip db clk ip nts)) = ip_history db @ [e] \<and>
        h_ip_address e = ip \<and> action e = ''reserve'' \<and>
        Some (new_status e) = map_option status (select_ip (snd (reserve_ip db clk ip nts)) ip))"
proof -
  let ?f = "\<lambda>r. r\<lparr>status := Reserved, ip_notes := Some nts,
             last_updated := current_timestamp clk\<rparr>"
  have eq: "snd (reserve_ip db clk ip nts) =
      insert_history clk ip ''reserve'' Free Reserved ''system'' nts (update_ip ?f ip db)"
    by (simp add: reserve_ip_eq)
  have ip: "ip' = ip"
    using assms unfolding eq by (rule status_changed_only_there [rotated]) simp
  then obtain r where r: "select_ip db ip = Some r"
    using assms by (auto simp: status_changed_def split: option.splits)
  have "select_ip (snd (reserve_ip db clk ip nts)) ip = Some (?f r)"
    unfolding eq using r by (simp add: select_ip_update_ip)
  then show ?thesis
    using ip history_entry_appended [of clk ip "''reserve''" Free Reserved "''system''" nts "update_ip ?f ip db"]
    unfolding eq by auto
qed

subsection \<open>Subnet creation leaves the existing addresses alone\<close>

lemma insert_ip_appends:
  "insert_ip clk ip sid st nts conn = Inr conn' \<Longrightarrow>
     \<exists>new. ip_addresses conn' = ip_addresses conn @ new"
  by (auto simp: insert_ip_def split: if_splits)

lemma insert_hosts_appends:
  "insert_hosts clk sid hs (conn, t) = Inr (conn', t') \<Longrightarrow>
     \<exists>new. ip_addresses conn' = ip_addresses conn @ new"
proof (induction hs arbitrary: conn t)
  case Nil
  then show ?case by simp
next
  case (Cons h hs)
  from Cons.prems obtain c1 where
    c1: "insert_ip clk (str_ip h) sid Free None conn = Inr c1"
    and rest: "insert_hosts clk sid hs (c1, t + 1) = Inr (conn', t')"
    by (auto split: sum.splits)
  from insert_ip_appends [OF c1] Cons.IH [OF rest] show ?case by auto
qed

lemma create_subnet_appends:
  "\<exists>new. ip_addresses (snd (create_subnet db clk cidr desc gw dns)) = ip_addresses db @ new \<and>
     ip_history (snd (create_subnet db clk cidr desc gw dns)) = ip_history db"
proof (cases "create_subnet db clk cidr desc gw dns")
  case (Pair res db1)
  show ?thesis
  proof (cases res)
    case (Inl e)
    then have "db1 = db"
      using Pair create_subnet_failure_unchanged [of db clk cidr desc gw dns e] by simp
    then show ?thesis using Pair by simp
  next
    case (Inr n)
    with Pair have ok: "create_subnet db clk cidr desc gw dns = (Inr n, db1)" by simp
    then obtain net where net: "ip_network cidr = Some net"
      using create_subnet_success [OF ok] by auto
    have new: "cidr \<notin> set (map subnet_cidr (subnets db))"
      using ok net create_subnet_exists [OF net, of db clk desc gw dns] by auto
    from ok obtain conn2 t conn3 where
      h: "insert_hosts clk (Suc (subnets_seq db)) (hosts net)
            (insert_subnet clk cidr desc gw dns db, 0) = Inr (conn2, t)"
      and n: "insert_ip clk (str_ip (network_address net)) (Suc (subnets_seq db)) Reserved
            (Some note_network_address) conn2 = Inr conn3"
      and b: "insert_ip clk (str_ip (broadcast_address net)) (Suc (subnets_seq db)) Reserved
            (Some note_broadcast_address) conn3 = Inr db1"
      unfolding create_subnet_stages [OF net new]
      by (auto split: sum.splits prod.splits)
    have "\<exists>new. ip_addresses db1 = ip_addresses db @ new"
      using insert_hosts_appends [OF h] insert_ip_appends [OF n] insert_ip_appends [OF b]
      by auto
    moreover have "ip_history db1 = ip_history db"
      using insert_hosts_Inr [OF h] insert_ip_Inr [OF n] insert_ip_Inr [OF b]
      by (simp add: insert_subnet_def)
    ultimately show ?thesis using ok by simp
  qed
qed

lemma find_append_Some: "find P xs = Some r \<Longrightarrow> find P (xs @ ys) = Some r"
  by (induction xs) (auto split: if_splits)

lemma select_ip_append:
  "select_ip db ip = Some r \<Longrightarrow> ip_addresses db' = ip_addresses db @ new \<Longrightarrow>
   select_ip db' ip = Some r"
  by (simp add: select_ip_def find_append_Some)

lemma create_subnet_keeps_status:
  "\<not> status_changed db (snd (create_subnet db clk cidr desc gw dns)) ip"
proof (cases "select_ip db ip")
  case None
  then show ?thesis by (simp add: status_changed_def)
next
  case (Some r)
  obtain new where
    "ip_addresses (snd (create_subnet db clk cidr desc gw dns)) = ip_addresses db @ new"
    using create_subnet_appends by blast
  from select_ip_append [OF Some this] Some show ?thesis
    by (simp add: status_changed_def)
qed

lemma create_subnet_keeps_row:
  "select_ip db ip = Some r \<Longrightarrow>
   select_ip (snd (create_subnet db clk cidr desc gw dns)) ip = Some r"
  using create_subnet_appends [of db clk cidr desc gw dns] select_ip_append by blast

lemma import_subnet_row_db:
  "fst (import_subnet_row clk row (db, n, es)) =
     (if length row \<ge> 1 then
        snd (create_subnet db clk (strip (row ! 0))
               (if length row > 1 then strip (row ! 1) else [])
               (if length row > 2 then strip (row ! 2) else [])
               (if length row > 3 then strip (row ! 3) else []))
      else db)"
  by (simp add: import_subnet_row_def split: prod.split sum.split)

lemma import_subnet_row_keeps:
  "ip_history (fst (import_subnet_row clk row acc)) = ip_history (fst acc) \<and>
   (select_ip (fst acc) ip = Some r \<longrightarrow>
      select_ip (fst (import_subnet_row clk row acc)) ip = Some r)"
proof -
  obtain db n es where acc: "acc = (db, n, es)" by (cases acc)
  show ?thesis
    unfolding acc import_subnet_row_db
    using create_subnet_appends create_subnet_keeps_row by auto
qed

lemma fold_import_subnet_row_keeps:
  "ip_history (fst (fold (import_subnet_row clk) rows acc)) = ip_history (fst acc) \<and>
   (select_ip (fst acc) ip = Some r \<longrightarrow>
      select_ip (fst (fold (import_subnet_row clk) rows acc)) ip = Some r)"
proof (induction rows arbitrary: acc)
  case Nil
  then show ?case by simp
next
  case (Cons row rows)
  show ?case
    using Cons.IH [of "import_subnet_row clk row acc"] import_subnet_row_keeps [of clk row acc ip r]
    by simp
qed

lemma import_subnet_from_csv_keeps:
  "ip_history (snd (import_subnet_from_csv db clk rows)) = ip_history db \<and>
   \<not> status_changed db (snd (import_subnet_from_csv db clk rows)) ip"
proof -
  have snd_eq: "snd (import_subnet_from_csv db clk rows) =
      fst (fold (import_subnet_row clk) rows (db, 0, []))"
    by (cases "fold (import_subnet_row clk) rows (db, 0, [])")
       (simp add: import_subnet_from_csv_def)
  note k = fold_import_subnet_row_keeps [of clk rows "(db, 0, [])" ip]
  show ?thesis
  proof (cases "select_ip db ip")
    case None
    then show ?thesis using k unfolding snd_eq by (simp add: status_changed_def)
  next
    case (Some r)
    then show ?thesis using k [of r] unfolding snd_eq by (simp add: status_changed_def)
  qed
qed

subsection \<open>Bulk allocation\<close>

lemma allocate_ip_history_length:
  "length (ip_history (snd (allocate_ip db clk ip to mac dev nts))) =
     length (ip_history db) + (case fst (allocate_ip db clk ip to mac dev nts) of
        Inr ok \<Rightarrow> 1 | Inl e \<Rightarrow> 0)"
proof (cases "select_ip db ip")
  case None
  then show ?thesis by (simp add: allocate_ip_not_found)
next
  case (Some r)
  then show ?thesis
    by (cases "status r = Free")
       (simp_all add: allocate_ip_free allocate_ip_not_free insert_history_def)
qed

lemma bulk_allocate_step_history:
  "length (ip_history (fst (bulk_allocate_step clk to mac dev nts ip acc))) + fst (snd acc) =
     length (ip_history (fst acc)) + fst (snd (bulk_allocate_step clk to mac dev nts ip acc))"
proof -
  obtain db n es where acc: "acc = (db, n, es)" by (cases acc)
  obtain res db' where r: "allocate_ip db clk ip to mac dev nts = (res, db')"
    by (cases "allocate_ip db clk ip to mac dev nts")
  show ?thesis
    using allocate_ip_history_length [of db clk ip to mac dev nts]
    unfolding acc by (cases res) (simp_all add: bulk_allocate_step_def r)
qed

lemma fold_bulk_allocate_history:
  "length (ip_history (fst (fold (bulk_allocate_step clk to mac dev nts) ips acc))) + fst (snd acc) =
     length (ip_history (fst acc)) + fst (snd (fold (bulk_allocate_step clk to mac dev nts) ips acc))"
proof (induction ips arbitrary: acc)
  case Nil
  then show ?case by simp
next
  case (Cons ip ips)
  show ?case
    using Cons.IH [of "bulk_allocate_step clk to mac dev nts ip acc"]
      bulk_allocate_step_history [of clk to mac dev nts ip acc]
    by simp
qed

lemma bulk_allocate_ips_history:
  "length (ip_history (snd (bulk_allocate_ips db clk ips to mac dev nts))) =
     length (ip_history db) + fst (fst (bulk_allocate_ips db clk ips to mac dev nts))"
  using fold_bulk_allocate_history [of clk to mac dev nts ips "(db, 0, [])"]
  by (cases "fold (bulk_allocate_step clk to mac dev nts) ips (db, 0, [])")
     (simp add: bulk_allocate_ips_def)


text \<open>
  Claim C3, as amended. The status of an existing address changes through \<open>allocate_ip\<close>,
  \<open>release_ip\<close> and \<open>reserve_ip\<close>, and each such change is that of the address the call
  names and comes with exactly one appended history row for that address, carrying the
  new status (and, for \<open>allocate_ip\<close> and \<open>release_ip\<close>, the prior status). Bulk
  allocation applies \<open>allocate_ip\<close> address by address and appends one history row per
  success. \<open>create_subnet\<close> and the CSV import of subnets change no status of an existing
  address and write no history. \<open>import_ips_from_csv\<close> is a fourth writer of the status
  column: it never appends to the history.
\<close>

theorem status_changes_and_history:
  "(\<forall>ip'. status_changed db (snd (allocate_ip db clk ip to mac dev nts)) ip' \<longrightarrow>
      ip' = ip \<and>
      (\<exists>e. ip_history (snd (allocate_ip db clk ip to mac dev nts)) = ip_history db @ [e] \<and>
         h_ip_address e = ip \<and> action e = ''allocate'' \<and>
         Some (old_status e) = map_option status (select_ip db ip) \<and>
         Some (new_status e) =
           map_option status (select_ip (snd (allocate_ip db clk ip to mac dev nts)) ip))) \<and>
   (\<forall>ip'. status_changed db (snd (release_ip db clk ip nts)) ip' \<longrightarrow>
      ip' = ip \<and>
      (\<exists>e. ip_history (snd (release_ip db clk ip nts)) = ip_history db @ [e] \<and>
         h_ip_address e = ip \<and> action e = ''release'' \<and>
         Some (old_status e) = map_option status (select_ip db ip) \<and>
         Some (new_status e) =
           map_option status (select_ip (snd (release_ip db clk ip nts)) ip))) \<and>
   (\<forall>ip'. status_changed db (snd (reserve_ip db clk ip nts)) ip' \<longrightarrow>
      ip' = ip \<and>
      (\<exists>e. ip_history (snd (reserve_ip db clk ip nts)) = ip_history db @ [e] \<and>
         h_ip_address e = ip \<and> action e = ''reserve'' \<and>
         Some (new_status e) =
           map_option status (select_ip (snd (reserve_ip db clk ip nts)) ip))) \<and>
   length (ip_history (snd (bulk_allocate_ips db clk ips to mac dev nts))) =
     length (ip_history db) + fst (fst (bulk_allocate_ips db clk ips to mac dev nts)) \<and>
   (\<forall>ip'. \<not> status_changed db (snd (create_subnet db clk cidr desc gw dns)) ip') \<and>
   ip_history (snd (create_subnet db clk cidr desc gw dns)) = ip_history db \<and>
   (\<forall>ip'. \<not> status_changed db (snd (import_subnet_from_csv db clk subnet_rows)) ip') \<and>
   ip_history (snd (import_subnet_from_csv db clk subnet_rows)) = ip_history db \<and>
   ip_history (snd (import_ips_from_csv db clk csv_data)) = ip_history db"
  using allocate_ip_logs_change [of db clk ip to mac dev nts]
    release_ip_logs_change [of db clk ip nts] reserve_ip_logs_change [of db clk ip nts]
    bulk_allocate_ips_history [of db clk ips to mac dev nts]
    create_subnet_keeps_status [of db clk cidr desc gw dns]
    create_subnet_appends [of db clk cidr desc gw dns]
    import_subnet_from_csv_keeps [of db clk subnet_rows]
    import_ips_from_csv_history [of db clk csv_data]
  by blast

theorem status_changes_and_history_witness:
  "status_changed example_db
     (snd (allocate_ip example_db example_clock ''192.168.1.10'' ''srv01'' [] [] []))
     ''192.168.1.10'' \<and>
   (\<exists>e. ip_history (snd (allocate_ip example_db example_clock ''192.168.1.10'' ''srv01'' [] [] []))
          = ip_history example_db @ [e] \<and> h_ip_address e = ''192.168.1.10'' \<and>
        action e = ''allocate'') \<and>
   status_changed allocated_db
     (snd (release_ip allocated_db example_clock ''192.168.1.10'' [])) ''192.168.1.10'' \<and>
   (\<exists>e. ip_history (snd (release_ip allocated_db example_clock ''192.168.1.10'' []))
          = ip_history allocated_db @ [e] \<and> h_ip_address e = ''192.168.1.10'' \<and>
        action e = ''release'') \<and>
   status_changed example_db
     (snd (reserve_ip example_db example_clock ''192.168.1.10'' ''backup'')) ''192.168.1.10'' \<and>
   (\<exists>e. ip_history (snd (reserve_ip example_db example_clock ''192.168.1.10'' ''backup''))
          = ip_history example_db @ [e] \<and> h_ip_address e = ''192.168.1.10'' \<and>
        action e = ''reserve'')"
proof -
  have a: "status_changed example_db
     (snd (allocate_ip example_db example_clock ''192.168.1.10'' ''srv01'' [] [] []))
     ''192.168.1.10''"
    by code_simp
  have b: "status_changed allocated_db
     (snd (release_ip allocated_db example_clock ''192.168.1.10'' [])) ''192.168.1.10''"
    by code_simp
  have c: "status_changed example_db
     (snd (reserve_ip example_db example_clock ''192.168.1.10'' ''backup'')) ''192.168.1.10''"
    by code_simp
  note t1 = status_changes_and_history [of example_db example_clock "''192.168.1.10''"
      "''srv01''" "[]" "[]" "[]" "[]" "[]" "[]" "[]" "[]" "[]" "[]"]
  note t2 = status_changes_and_history [of allocated_db example_clock "''192.168.1.10''"
      "''srv01''" "[]" "[]" "[]" "[]" "[]" "[]" "[]" "[]" "[]" "[]"]
  note t3 = status_changes_and_history [of example_db example_clock "''192.168.1.10''"
      "''srv01''" "[]" "[]" "''backup''" "[]" "[]" "[]" "[]" "[]" "[]" "[]"]
  have 1: "\<exists>e. ip_history (snd (allocate_ip example_db example_clock ''192.168.1.10'' ''srv01'' [] [] []))
          = ip_history example_db @ [e] \<and> h_ip_address e = ''192.168.1.10'' \<and>
        action e = ''allocate''"
    using t1 a by blast
  have 2: "\<exists>e. ip_history (snd (release_ip allocated_db example_clock ''192.168.1.10'' []))
          = ip_history allocated_db @ [e] \<and> h_ip_address e = ''192.168.1.10'' \<and>
        action e = ''release''"
    using t2 b by blast
  have 3: "\<exists>e. ip_history (snd (reserve_ip example_db example_clock ''192.168.1.10'' ''backup''))
          = ip_history example_db @ [e] \<and> h_ip_address e = ''192.168.1.10'' \<and>
        action e = ''reserve''"
    using t3 c by blast
  show ?thesis using a b c 1 2 3 by blast
qed

text \<open>
  Claim C3 as first stated fails: importing the CSV row \<open>192.168.1.10,used\<close> changes the
  status of that address from \<open>Free\<close> to \<open>Used\<close> and the history stays as it was.
\<close>

theorem import_changes_status_without_history:
  "map_option status (select_ip example_db ''192.168.1.10'') = Some Free \<and>
   fst (import_ips_from_csv example_db example_clock [[''192.168.1.10'', ''used'']]) = (0, 1, []) \<and>
   map_option status
     (select_ip (snd (import_ips_from_csv example_db example_clock [[''192.168.1.10'', ''used'']]))
        ''192.168.1.10'') = Some Used \<and>
   status_changed example_db
     (snd (import_ips_from_csv example_db example_clock [[''192.168.1.10'', ''used'']]))
     ''192.168.1.10'' \<and>
   ip_history (snd (import_ips_from_csv example_db example_clock [[''192.168.1.10'', ''used'']]))
     = ip_history example_db"
  by code_simp

section \<open>Floating-point arithmetic\<close>

lemma round_half_even_cases:
  "round_half_even x = \<lfloor>x\<rfloor> \<or> round_half_even x = \<lfloor>x\<rfloor> + 1"
  by (simp add: round_half_even_def Let_def)

lemma round_half_even_of_int [simp]: "round_half_even (of_int n) = n"
  by (simp add: round_half_even_def)

lemma round_half_even_near:
  assumes "\<bar>x - of_int n\<bar> < 1 / 2"
  shows "round_half_even x = n"
proof -
  consider "\<lfloor>x\<rfloor> = n" | "\<lfloor>x\<rfloor> = n - 1"
    using assms by (cases "x \<ge> of_int n") (auto simp: floor_eq_iff abs_if split: if_splits) 
  then show ?thesis
  proof cases
    case 1
    then show ?thesis using assms by (auto simp: round_half_even_def Let_def abs_if split: if_splits)
  next
    case 2
    then show ?thesis using assms by (auto simp: round_half_even_def Let_def abs_if split: if_splits)
  qed
qed

lemma round_half_even_mono:
  assumes "x \<le> y"
  shows "round_half_even x \<le> round_half_even y"
proof (cases "\<lfloor>x\<rfloor> = \<lfloor>y\<rfloor>")
  case True
  then show ?thesis using assms by (auto simp: round_half_even_def Let_def)
next
  case False
  then have "\<lfloor>x\<rfloor> + 1 \<le> \<lfloor>y\<rfloor>" using floor_mono [OF assms] by simp
  moreover have "round_half_even x \<le> \<lfloor>x\<rfloor> + 1"
    using round_half_even_cases [of x] by auto
  moreover have "\<lfloor>y\<rfloor> \<le> round_half_even y"
    using round_half_even_cases [of y] by auto
  ultimately show ?thesis by simp
qed

lemma exponent_bounds:
  assumes "0 < x"
  shows "2 powi (exponent x) \<le> x \<and> x < 2 powi (exponent x + 1)"
proof -
  obtain p q where pq: "quotient_of x = (p, q)" by (cases "quotient_of x")
  then have q: "0 < q" and x: "x = of_int p / of_int q"
    using quotient_of_denom_pos quotient_of_div by auto
  have p: "0 < p" using assms q unfolding x by (simp add: zero_less_divide_iff)
  define la lb where "la = floorlog 2 (nat p)" and "lb = floorlog 2 (nat q)"
  have bp: "2 ^ (la - 1) \<le> nat p" "nat p < 2 ^ la"
    using floorlog_bounds [of "nat p" 2] p unfolding la_def by simp_all
  have bq: "2 ^ (lb - 1) \<le> nat q" "nat q < 2 ^ lb"
    using floorlog_bounds [of "nat q" 2] q unfolding lb_def by simp_all
  have la: "0 < la" and lb: "0 < lb"
    using p q floorlog_eq_zero_iff [of 2 "nat p"] floorlog_eq_zero_iff [of 2 "nat q"]
    unfolding la_def lb_def by auto
  have rp: "(2::rat) ^ (la - 1) \<le> of_int p" "(of_int p :: rat) < 2 ^ la"
  proof -
    have "(of_nat (2 ^ (la - 1)) :: rat) \<le> of_nat (nat p)" using bp(1) by (simp only: of_nat_le_iff)
    then show "(2::rat) ^ (la - 1) \<le> of_int p" using p by simp
    have "(of_nat (nat p) :: rat) < of_nat (2 ^ la)" using bp(2) by (simp only: of_nat_less_iff)
    then show "(of_int p :: rat) < 2 ^ la" using p by simp
  qed
  have rq: "(2::rat) ^ (lb - 1) \<le> of_int q" "(of_int q :: rat) < 2 ^ lb"
  proof -
    have "(of_nat (2 ^ (lb - 1)) :: rat) \<le> of_nat (nat q)" using bq(1) by (simp only: of_nat_le_iff)
    then show "(2::rat) ^ (lb - 1) \<le> of_int q" using q by simp
    have "(of_nat (nat q) :: rat) < of_nat (2 ^ lb)" using bq(2) by (simp only: of_nat_less_iff)
    then show "(of_int q :: rat) < 2 ^ lb" using q by simp
  qed
  define k where "k = int la - int lb"
  have up: "x < 2 powi (k + 1)"
  proof -
    have "x < 2 ^ la / 2 ^ (lb - 1)"
      unfolding x using rp(2) rq(1) q p
      by (intro frac_less) simp_all
    also have "\<dots> = 2 powi (int la - int (lb - 1))"
      by (simp add: power_int_diff)
    also have "int la - int (lb - 1) = k + 1" using lb unfolding k_def by simp
    finally show ?thesis .
  qed
  have lo: "2 powi (k - 1) \<le> x"
  proof -
    have "(2::rat) ^ (la - 1) / 2 ^ lb \<le> x"
      unfolding x using rp(1) rq(2) q p
      by (intro frac_le) simp_all
    moreover have "(2::rat) ^ (la - 1) / 2 ^ lb = 2 powi (int (la - 1) - int lb)"
      by (simp add: power_int_diff)
    moreover have "int (la - 1) - int lb = k - 1" using la unfolding k_def by simp
    ultimately show ?thesis by simp
  qed
  have e: "exponent x = (if x < 2 powi k then k - 1 else k)"
    by (simp add: exponent_def pq Let_def k_def la_def lb_def)
  show ?thesis
    using up lo unfolding e by auto
qed

lemma pow2_less_imp_less:
  assumes "(2::rat) powi m < 2 powi n"
  shows "m < n"
proof (rule ccontr)
  assume "\<not> m < n"
  then have "(2::rat) powi n \<le> 2 powi m"
    by (intro power_int_increasing) simp_all
  then show False using assms by simp
qed

lemma exponent_unique:
  assumes "0 < x" and "2 powi e \<le> x" and "x < 2 powi (e + 1)"
  shows "exponent x = e"
proof -
  note b = exponent_bounds [OF assms(1)]
  have "(2::rat) powi (exponent x) < 2 powi (e + 1)" using b assms(3) by simp
  then have 1: "exponent x < e + 1"
    by (rule pow2_less_imp_less)
  have "(2::rat) powi e < 2 powi (exponent x + 1)" using b assms(2) by simp
  then have 2: "e < exponent x + 1"
    by (rule pow2_less_imp_less)
  show ?thesis using 1 2 by simp
qed

lemma binary64_pos:
  assumes "0 < x" and "2 powi e \<le> x" and "x < 2 powi (e + 1)"
  shows "binary64 x = of_int (round_half_even (x / 2 powi (e - 52))) * 2 powi (e - 52)"
  using assms exponent_unique [OF assms] by (simp add: binary64_def Let_def)

lemma binary64_zero [simp]: "binary64 0 = 0"
  by (simp add: binary64_def)

text \<open>The rounded value stays within the binade of its argument.\<close>

lemma binary64_binade:
  assumes "0 < x" and "2 powi e \<le> x" and "x < 2 powi (e + 1)"
  shows "2 powi e \<le> binary64 x \<and> binary64 x \<le> 2 powi (e + 1)"
proof -
  let ?u = "(2::rat) powi (e - 52)"
  have u: "0 < ?u" by simp
  have lo: "of_int (2 ^ 52) \<le> x / ?u"
  proof -
    have "(2::rat) powi e = 2 ^ 52 * ?u"
      by (simp add: power_int_diff)
    then show ?thesis using assms(2) u by (simp add: pos_le_divide_eq)
  qed
  have hi: "x / ?u \<le> of_int (2 ^ 53)"
  proof -
    have "(2::rat) powi (e + 1) = 2 ^ 53 * ?u"
      by (simp add: power_int_diff power_int_add)
    then show ?thesis using assms(3) u by (simp add: pos_divide_le_eq)
  qed
  have "round_half_even (of_int (2 ^ 52)) \<le> round_half_even (x / ?u)"
    by (rule round_half_even_mono [OF lo])
  then have "(of_int (2 ^ 52) :: rat) \<le> of_int (round_half_even (x / ?u))"
    unfolding round_half_even_of_int by (simp only: of_int_le_iff)
  then have 1: "(2::rat) ^ 52 \<le> of_int (round_half_even (x / ?u))"
    by simp
  have "round_half_even (x / ?u) \<le> round_half_even (of_int (2 ^ 53))"
    by (rule round_half_even_mono [OF hi])
  then have "(of_int (round_half_even (x / ?u)) :: rat) \<le> of_int (2 ^ 53)"
    unfolding round_half_even_of_int by (simp only: of_int_le_iff)
  then have 2: "of_int (round_half_even (x / ?u)) \<le> (2::rat) ^ 53"
    by simp
  have e1: "(2::rat) powi e = 2 ^ 52 * ?u" by (simp add: power_int_diff)
  have e2: "(2::rat) powi (e + 1) = 2 ^ 53 * ?u" by (simp add: power_int_diff power_int_add)
  have "2 ^ 52 * ?u \<le> of_int (round_half_even (x / ?u)) * ?u"
    using 1 u by (intro mult_right_mono) simp_all
  moreover have "of_int (round_half_even (x / ?u)) * ?u \<le> 2 ^ 53 * ?u"
    using 2 u by (intro mult_right_mono) simp_all
  ultimately show ?thesis
    unfolding binary64_pos [OF assms] e1 e2 by simp
qed

lemma binary64_mono_pos:
  assumes "0 < x" and "x \<le> y"
  shows "binary64 x \<le> binary64 y"
proof -
  have y: "0 < y" using assms by simp
  note bx = exponent_bounds [OF assms(1)] and by' = exponent_bounds [OF y]
  have "(2::rat) powi (exponent x) < 2 powi (exponent y + 1)"
    using bx by' assms(2) by simp
  then have le: "exponent x \<le> exponent y"
    using pow2_less_imp_less by fastforce
  show ?thesis
  proof (cases "exponent x = exponent y")
    case True
    let ?u = "(2::rat) powi (exponent y - 52)"
    have "x / ?u \<le> y / ?u" using assms(2) by (simp add: divide_right_mono)
    then have "round_half_even (x / ?u) \<le> round_half_even (y / ?u)"
      by (rule round_half_even_mono)
    then have "(of_int (round_half_even (x / ?u)) :: rat) * ?u \<le> of_int (round_half_even (y / ?u)) * ?u"
      by (intro mult_right_mono) simp_all
    then show ?thesis
      using binary64_pos [of x "exponent x"] binary64_pos [of y "exponent y"] bx by' assms(1) y True
      by simp
  next
    case False
    then have "exponent x + 1 \<le> exponent y" using le by simp
    then have "(2::rat) powi (exponent x + 1) \<le> 2 powi (exponent y)"
      by (intro power_int_increasing) simp_all
    moreover have "binary64 x \<le> 2 powi (exponent x + 1)"
      using binary64_binade [of x "exponent x"] bx assms(1) by simp
    moreover have "2 powi (exponent y) \<le> binary64 y"
      using binary64_binade [of y "exponent y"] by' y by simp
    ultimately show ?thesis by simp
  qed
qed

lemma binary64_nonneg:
  assumes "0 \<le> x"
  shows "0 \<le> binary64 x"
proof (cases "x = 0")
  case True
  then show ?thesis by simp
next
  case False
  then have x: "0 < x" using assms by simp
  have "(0::rat) \<le> 2 powi (exponent x)" by simp
  also have "\<dots> \<le> binary64 x"
    using binary64_binade [of x "exponent x"] exponent_bounds [OF x] x by simp
  finally show ?thesis .
qed

lemma binary64_mono:
  assumes "0 \<le> x" and "x \<le> y"
  shows "binary64 x \<le> binary64 y"
proof (cases "x = 0")
  case True
  then show ?thesis using binary64_nonneg [of y] assms by simp
next
  case False
  then show ?thesis using assms binary64_mono_pos [of x y] by simp
qed

text \<open>A number with a significand below \<open>2 ^ 53\<close> is a fixed point of the rounding.\<close>

lemma binary64_representable:
  assumes m: "0 < m" "m < 2 ^ 53"
  shows "binary64 (of_int m * 2 powi k) = of_int m * 2 powi k"
proof -
  let ?x = "of_int m * (2::rat) powi k"
  have x: "0 < ?x" using m by simp
  define e where "e = exponent ?x"
  note b = exponent_bounds [OF x, folded e_def]
  have "(2::rat) powi e \<le> of_int m * 2 powi k" using b by simp
  also have "\<dots> < 2 ^ 53 * 2 powi k"
  proof -
    have "(of_int m :: rat) < of_int (2 ^ 53)" using m(2) by (simp only: of_int_less_iff)
    then have "(of_int m :: rat) < 2 ^ 53" by simp
    then show ?thesis by (intro mult_strict_right_mono) simp_all
  qed
  also have "\<dots> = 2 powi (k + 53)" by (simp add: power_int_add)
  finally have "e < k + 53" by (rule pow2_less_imp_less)
  then obtain j :: nat where j: "k - (e - 52) = int j"
    using nonneg_int_cases [of "k - (e - 52)"] by auto
  have "?x / 2 powi (e - 52) = of_int m * 2 powi (k - (e - 52))"
    by (simp add: power_int_diff)
  also have "\<dots> = of_int (m * 2 ^ j)" unfolding j by simp
  finally have q: "?x / 2 powi (e - 52) = of_int (m * 2 ^ j)" .
  have "binary64 ?x = of_int (m * 2 ^ j) * 2 powi (e - 52)"
    using binary64_pos [OF x, of e] b unfolding q round_half_even_of_int by simp
  also have "\<dots> = of_int m * (2 powi (int j) * 2 powi (e - 52))"
    by simp
  also have "2 powi (int j) * 2 powi (e - 52) = (2::rat) powi k"
    unfolding j [symmetric] by (simp flip: power_int_add)
  finally show ?thesis .
qed

subsection \<open>The two thresholds\<close>

lemma binary64_four_fifths: "binary64 (4 / 5) = 7205759403792794 / 2 ^ 53"
proof -
  have r: "round_half_even (4 / 5 / 2 powi (- 1 - 52)) = 7205759403792794"
    by (rule round_half_even_near) (simp add: power_int_minus)
  show ?thesis
    using binary64_pos [of "4 / 5" "- 1"] unfolding r by (simp add: power_int_minus)
qed

lemma binary64_eighty: "binary64 (7205759403792794 / 2 ^ 53 * 100) = 80"
proof -
  have r: "round_half_even (7205759403792794 / 2 ^ 53 * 100 / 2 powi (6 - 52)) =
      5629499534213120"
    by (rule round_half_even_near) (simp add: power_int_minus)
  show ?thesis
    using binary64_pos [of "7205759403792794 / 2 ^ 53 * 100" 6] unfolding r
    by (simp add: power_int_minus)
qed

lemma binary64_three_fifths: "binary64 (3 / 5) = 5404319552844595 / 2 ^ 53"
proof -
  have r: "round_half_even (3 / 5 / 2 powi (- 1 - 52)) = 5404319552844595"
    by (rule round_half_even_near) (simp add: power_int_minus)
  show ?thesis
    using binary64_pos [of "3 / 5" "- 1"] unfolding r by (simp add: power_int_minus)
qed

lemma binary64_sixty: "binary64 (5404319552844595 / 2 ^ 53 * 100) = 60"
proof -
  have r: "round_half_even (5404319552844595 / 2 ^ 53 * 100 / 2 powi (5 - 52)) =
      8444249301319680"
    by (rule round_half_even_near) (simp add: power_int_minus)
  show ?thesis
    using binary64_pos [of "5404319552844595 / 2 ^ 53 * 100" 5] unfolding r
    by (simp add: power_int_minus)
qed

lemma usage_at_least:
  assumes c: "binary64 (a / b) = c" and v: "binary64 (c * 100) = v"
    and ab: "0 \<le> a / b" and t: "0 < t" and le: "a * of_nat t \<le> b * of_nat u" and b: "0 < b"
  shows "v \<le> float_mul (py_truediv u t) 100"
proof -
  have "a / b \<le> of_nat u / of_nat t"
    using le t b by (simp add: field_simps)
  then have 1: "c \<le> binary64 (of_nat u / of_nat t)"
    using binary64_mono [OF ab] c by simp
  have "0 \<le> c" using binary64_nonneg [OF ab] c by simp
  then have "binary64 (c * 100) \<le> binary64 (binary64 (of_nat u / of_nat t) * 100)"
    using 1 by (intro binary64_mono) simp_all
  then show ?thesis by (simp add: v float_mul_def py_truediv_def)
qed

lemma usage_below:
  assumes r1: "binary64 r1 = r1" and r2: "binary64 r2 = r2"
    and x: "of_nat u / of_nat t \<le> r1" and m: "r1 * 100 \<le> r2"
  shows "float_mul (py_truediv u t) 100 \<le> r2"
proof -
  have x0: "(0::rat) \<le> of_nat u / of_nat t" by simp
  have 1: "binary64 (of_nat u / of_nat t) \<le> r1"
    using binary64_mono [OF x0 x] r1 by simp
  have "0 \<le> binary64 (of_nat u / of_nat t)" by (rule binary64_nonneg [OF x0])
  then have "binary64 (binary64 (of_nat u / of_nat t) * 100) \<le> binary64 r2"
    using 1 m by (intro binary64_mono) simp_all
  then show ?thesis by (simp add: r2 float_mul_def py_truediv_def)
qed

lemma high_threshold_exact:
  assumes t: "0 < t" "t \<le> 2 ^ 32"
  shows "(80 \<le> float_mul (py_truediv u t) 100) = (4 * t \<le> 5 * u)"
proof (cases "4 * t \<le> 5 * u")
  case True
  then have "(4::rat) * of_nat t \<le> 5 * of_nat u"
    by (metis of_nat_le_iff of_nat_mult of_nat_numeral)
  then have "80 \<le> float_mul (py_truediv u t) 100"
    using usage_at_least [OF binary64_four_fifths binary64_eighty, of t u] t(1) by simp
  then show ?thesis using True by simp
next
  case False
  let ?r1 = "of_int 879609302220 * (2::rat) powi (- 40)"
  let ?r2 = "of_int 2748779069439 * (2::rat) powi (- 35)"
  have r1: "binary64 ?r1 = ?r1" by (rule binary64_representable) simp_all
  have r2: "binary64 ?r2 = ?r2" by (rule binary64_representable) simp_all
  from False t(2) have "u * 1099511627776 \<le> 879609302220 * t" by simp
  then have "(of_nat u :: rat) * 1099511627776 \<le> 879609302220 * of_nat t"
    by (metis of_nat_le_iff of_nat_mult of_nat_numeral)
  then have x: "(of_nat u :: rat) / of_nat t \<le> ?r1"
    using t(1) by (simp add: power_int_minus field_simps)
  have m: "?r1 * 100 \<le> ?r2" by (simp add: power_int_minus)
  have "float_mul (py_truediv u t) 100 \<le> ?r2"
    by (rule usage_below [OF r1 r2 x m])
  moreover have "?r2 < 80" by (simp add: power_int_minus)
  ultimately show ?thesis using False by simp
qed

lemma medium_threshold_exact:
  assumes t: "0 < t" "t \<le> 2 ^ 32"
  shows "(60 \<le> float_mul (py_truediv u t) 100) = (3 * t \<le> 5 * u)"
proof (cases "3 * t \<le> 5 * u")
  case True
  then have "(3::rat) * of_nat t \<le> 5 * of_nat u"
    by (metis of_nat_le_iff of_nat_mult of_nat_numeral)
  then have "60 \<le> float_mul (py_truediv u t) 100"
    using usage_at_least [OF binary64_three_fifths binary64_sixty, of t u] t(1) by simp
  then show ?thesis using True by simp
next
  case False
  let ?r1 = "of_int 659706976665 * (2::rat) powi (- 40)"
  let ?r2 = "of_int 2061584302079 * (2::rat) powi (- 35)"
  have r1: "binary64 ?r1 = ?r1" by (rule binary64_representable) simp_all
  have r2: "binary64 ?r2 = ?r2" by (rule binary64_representable) simp_all
  from False t(2) have "u * 1099511627776 \<le> 659706976665 * t" by simp
  then have "(of_nat u :: rat) * 1099511627776 \<le> 659706976665 * of_nat t"
    by (metis of_nat_le_iff of_nat_mult of_nat_numeral)
  then have x: "(of_nat u :: rat) / of_nat t \<le> ?r1"
    using t(1) by (simp add: power_int_minus field_simps)
  have m: "?r1 * 100 \<le> ?r2" by (simp add: power_int_minus)
  have "float_mul (py_truediv u t) 100 \<le> ?r2"
    by (rule usage_below [OF r1 r2 x m])
  moreover have "?r2 < 60" by (simp add: power_int_minus)
  ultimately show ?thesis using False by simp
qed

subsection \<open>Rounding error\<close>

lemma round_half_even_error: "\<bar>of_int (round_half_even x) - x\<bar> \<le> 1 / 2"
proof -
  have b: "of_int \<lfloor>x\<rfloor> \<le> x" "x < of_int \<lfloor>x\<rfloor> + 1" by linarith+
  consider (lo) "x - of_int \<lfloor>x\<rfloor> < 1 / 2" | (hi) "x - of_int \<lfloor>x\<rfloor> > 1 / 2"
    | (tie) "x - of_int \<lfloor>x\<rfloor> = 1 / 2"
    by linarith
  then show ?thesis
  proof cases
    case lo
    then have "round_half_even x = \<lfloor>x\<rfloor>" by (simp add: round_half_even_def Let_def)
    then show ?thesis using lo b by simp
  next
    case hi
    then have "round_half_even x = \<lfloor>x\<rfloor> + 1" by (simp add: round_half_even_def Let_def)
    then show ?thesis using hi b by simp
  next
    case tie
    then have "round_half_even x = \<lfloor>x\<rfloor> \<or> round_half_even x = \<lfloor>x\<rfloor> + 1"
      by (simp add: round_half_even_cases)
    then show ?thesis using tie by auto
  qed
qed

lemma binary64_error:
  assumes "0 < x"
  shows "\<bar>binary64 x - x\<bar> \<le> x / 2 ^ 53"
proof -
  define e where "e = exponent x"
  let ?u = "(2::rat) powi (e - 52)"
  note b = exponent_bounds [OF assms, folded e_def]
  have u: "0 < ?u" by simp
  have fl: "binary64 x = of_int (round_half_even (x / ?u)) * ?u"
    using binary64_pos [OF assms, of e] b by simp
  have "binary64 x - x = (of_int (round_half_even (x / ?u)) - x / ?u) * ?u"
    unfolding fl using u by (simp add: algebra_simps)
  then have "\<bar>binary64 x - x\<bar> = \<bar>of_int (round_half_even (x / ?u)) - x / ?u\<bar> * ?u"
    using u by (simp add: abs_mult)
  also have "\<dots> \<le> 1 / 2 * ?u"
    using round_half_even_error [of "x / ?u"] u by (intro mult_right_mono) simp_all
  also have "\<dots> \<le> x / 2 ^ 53"
  proof -
    have "(2::rat) powi e = 2 ^ 52 * ?u" by (simp add: power_int_diff)
    then have "2 ^ 52 * ?u \<le> x" using b by simp
    then show ?thesis by simp
  qed
  finally show ?thesis .
qed

lemma usage_error:
  assumes "0 < t"
  shows "\<bar>float_mul (py_truediv u t) 100 - of_nat u / of_nat t * 100\<bar>
           \<le> of_nat u / of_nat t * 100 / 2 ^ 51"
proof (cases "u = 0")
  case True
  then show ?thesis by (simp add: float_mul_def py_truediv_def)
next
  case False
  let ?x = "(of_nat u :: rat) / of_nat t"
  let ?y = "binary64 ?x"
  have x: "0 < ?x" using assms False by simp
  have ey: "\<bar>?y - ?x\<bar> \<le> ?x / 2 ^ 53" by (rule binary64_error [OF x])
  have y: "0 < ?y"
  proof -
    have "(0::rat) < 2 powi (exponent ?x)" by simp
    also have "\<dots> \<le> ?y"
      using binary64_binade [of ?x "exponent ?x"] exponent_bounds [OF x] x by simp
    finally show ?thesis .
  qed
  then have z: "0 < ?y * 100" by simp
  have ez: "\<bar>binary64 (?y * 100) - ?y * 100\<bar> \<le> ?y * 100 / 2 ^ 53"
    by (rule binary64_error [OF z])
  have yb: "?y \<le> ?x + ?x / 2 ^ 53" using ey by (simp add: abs_le_iff)
  have "binary64 (?y * 100) - ?x * 100 = (binary64 (?y * 100) - ?y * 100) + (?y - ?x) * 100"
    by (simp add: algebra_simps)
  then have "\<bar>binary64 (?y * 100) - ?x * 100\<bar> \<le>
      \<bar>binary64 (?y * 100) - ?y * 100\<bar> + \<bar>(?y - ?x) * 100\<bar>"
    using abs_triangle_ineq [of "binary64 (?y * 100) - ?y * 100" "(?y - ?x) * 100"] by simp
  also have "\<bar>(?y - ?x) * 100\<bar> = \<bar>?y - ?x\<bar> * 100"
    by (subst abs_mult) simp
  finally have "\<bar>binary64 (?y * 100) - ?x * 100\<bar> \<le>
      \<bar>binary64 (?y * 100) - ?y * 100\<bar> + \<bar>?y - ?x\<bar> * 100" .
  also have "\<bar>binary64 (?y * 100) - ?y * 100\<bar> + \<bar>?y - ?x\<bar> * 100 \<le>
      ?y * 100 / 2 ^ 53 + ?x / 2 ^ 53 * 100"
    using ez ey by (intro add_mono mult_right_mono) simp_all
  also have "\<dots> \<le> (?x + ?x / 2 ^ 53) * 100 / 2 ^ 53 + ?x / 2 ^ 53 * 100"
    using yb by (intro add_mono divide_right_mono mult_right_mono) simp_all
  also have "\<dots> \<le> ?x * 100 / 2 ^ 51"
    using x by (simp add: field_simps)
  finally show ?thesis by (simp add: float_mul_def py_truediv_def)
qed

subsection \<open>Usage rate and status\<close>

lemma spec_high: "0 < t \<Longrightarrow> (80 \<le> spec_usage_rate u t) = (4 * t \<le> 5 * u)"
proof -
  assume t: "0 < t"
  have "(80 \<le> spec_usage_rate u t) = ((4::rat) * of_nat t \<le> 5 * of_nat u)"
    using t by (simp add: spec_usage_rate_def field_simps)
  also have "\<dots> = (4 * t \<le> 5 * u)"
    by (metis of_nat_le_iff of_nat_mult of_nat_numeral)
  finally show ?thesis .
qed

lemma spec_medium: "0 < t \<Longrightarrow> (60 \<le> spec_usage_rate u t) = (3 * t \<le> 5 * u)"
proof -
  assume t: "0 < t"
  have "(60 \<le> spec_usage_rate u t) = ((3::rat) * of_nat t \<le> 5 * of_nat u)"
    using t by (simp add: spec_usage_rate_def field_simps)
  also have "\<dots> = (3 * t \<le> 5 * u)"
    by (metis of_nat_le_iff of_nat_mult of_nat_numeral)
  finally show ?thesis .
qed

lemma stats_row_usage_rate:
  "st_usage_rate (stats_row (s, t, u, f, r)) =
     (if t = 0 then 0 else float_mul (py_truediv u t) 100)"
  by (simp add: stats_row_def Let_def)

lemma stats_row_status:
  assumes "t \<le> 2 ^ 32"
  shows "st_status (stats_row (s, t, u, f, r)) = spec_status u t"
proof (cases "t = 0")
  case True
  then show ?thesis by (simp add: stats_row_def spec_status_def)
next
  case False
  then have t: "0 < t" by simp
  show ?thesis
    using t high_threshold_exact [OF t assms, of u] medium_threshold_exact [OF t assms, of u]
      spec_high [OF t, of u] spec_medium [OF t, of u]
    by (simp add: stats_row_def spec_status_def Let_def HIGH_USAGE_THRESHOLD_def
          MEDIUM_USAGE_THRESHOLD_def)
qed

lemma stats_row_counts:
  "st_total_ips (stats_row (s, t, u, f, r)) = t" "st_used_ips (stats_row (s, t, u, f, r)) = u"
  by (simp_all add: stats_row_def Let_def)

lemma select_subnets_with_counts_total:
  assumes "(s, t, u, f, r) \<in> set (select_subnets_with_counts db)"
  shows "t \<le> length (ip_addresses db)"
  using assms by (auto simp: select_subnets_with_counts_def Let_def)

lemma spec_usage_rate_nonneg: "0 \<le> spec_usage_rate u t"
  by (simp add: spec_usage_rate_def)

lemma usage_error_spec:
  "\<bar>(if t = 0 then 0 else float_mul (py_truediv u t) 100) - spec_usage_rate u t\<bar>
     \<le> spec_usage_rate u t / 2 ^ 51"
proof (cases "t = 0")
  case True
  then show ?thesis by (simp add: spec_usage_rate_def)
next
  case False
  then have s: "spec_usage_rate u t = of_nat u / of_nat t * 100"
    by (simp add: spec_usage_rate_def)
  show ?thesis
    unfolding s using False usage_error [of t u] by (simp only: if_False)
qed

lemma stats_counts_of_query:
  "map (\<lambda>st. (st_total_ips st, st_used_ips st)) (get_subnets_with_stats db) =
     map (\<lambda>(s, t, u, f, r). (t, u)) (select_subnets_with_counts db)"
  by (simp add: get_subnets_with_stats_def stats_row_def Let_def split_def comp_def)

text \<open>
  Claim C7. For an inventory of at most \<open>2 ^ 32\<close> addresses (there are no more IPv4
  addresses, and \<open>ip_address\<close> is unique), every entry of \<open>get_subnets_with_stats\<close>
  counts the addresses of its subnet, has \<open>usage_rate = used / total * 100\<close> in Python's
  floating-point arithmetic and \<open>0\<close> when the total is \<open>0\<close>, which is the exact quotient
  up to a relative rounding error of \<open>2 ^ -51\<close>, and carries the status that the cascade
  \<open>Empty\<close>, \<open>High\<close> (at least 80), \<open>MediumHigh\<close> (at least 60), \<open>Idle\<close> (nothing
  used), \<open>Normal\<close> gives on the exact usage rate: the rounding never moves a value
  across a threshold. The thresholds are the two constants of the configuration.
  \<open>get_statistics\<close> counts the whole inventory and computes its usage rate by the same
  formula with the same guard.
\<close>

theorem usage_rate_and_status:
  assumes "length (ip_addresses db) \<le> 2 ^ 32"
  shows "(\<forall>st\<in>set (get_subnets_with_stats db).
            st_subnet st \<in> set (subnets db) \<and>
            st_total_ips st =
              length (filter (\<lambda>ip. subnet_id ip = Some (s_id (st_subnet st))) (ip_addresses db)) \<and>
            st_used_ips st =
              count_status Used
                (filter (\<lambda>ip. subnet_id ip = Some (s_id (st_subnet st))) (ip_addresses db)) \<and>
            st_usage_rate st =
              (if st_total_ips st = 0 then 0
               else float_mul (py_truediv (st_used_ips st) (st_total_ips st)) 100) \<and>
            \<bar>st_usage_rate st - spec_usage_rate (st_used_ips st) (st_total_ips st)\<bar>
              \<le> spec_usage_rate (st_used_ips st) (st_total_ips st) / 2 ^ 51 \<and>
            st_status st = spec_status (st_used_ips st) (st_total_ips st)) \<and>
         g_total (get_statistics db) = length (ip_addresses db) \<and>
         g_used (get_statistics db) = count_status Used (ip_addresses db) \<and>
         g_usage_rate (get_statistics db) =
           (if g_total (get_statistics db) = 0 then 0
            else float_mul (py_truediv (g_used (get_statistics db))
                   (g_total (get_statistics db))) 100) \<and>
         \<bar>g_usage_rate (get_statistics db) -
            spec_usage_rate (g_used (get_statistics db)) (g_total (get_statistics db))\<bar>
           \<le> spec_usage_rate (g_used (get_statistics db)) (g_total (get_statistics db)) / 2 ^ 51 \<and>
         HIGH_USAGE_THRESHOLD = 80 \<and> MEDIUM_USAGE_THRESHOLD = 60"
proof (intro conjI ballI)
  fix st assume "st \<in> set (get_subnets_with_stats db)"
  then obtain s where s: "s \<in> set (subnets db)"
    and st: "st = stats_row (s, length (filter (\<lambda>ip. subnet_id ip = Some (s_id s)) (ip_addresses db)),
        count_status Used (filter (\<lambda>ip. subnet_id ip = Some (s_id s)) (ip_addresses db)),
        count_status Free (filter (\<lambda>ip. subnet_id ip = Some (s_id s)) (ip_addresses db)),
        count_status Reserved (filter (\<lambda>ip. subnet_id ip = Some (s_id s)) (ip_addresses db)))"
    by (auto simp: get_subnets_with_stats_def select_subnets_with_counts_def Let_def)
  let ?rows = "filter (\<lambda>ip. subnet_id ip = Some (s_id s)) (ip_addresses db)"
  have sub: "st_subnet st = s" unfolding st by (simp add: stats_row_def Let_def)
  have t: "st_total_ips st = length ?rows" and u: "st_used_ips st = count_status Used ?rows"
    unfolding st by (simp_all add: stats_row_counts)
  have bound: "length ?rows \<le> 2 ^ 32"
    using assms length_filter_le [of _ "ip_addresses db"] le_trans by blast
  show "st_subnet st \<in> set (subnets db)" using s sub by simp
  show "st_total_ips st =
      length (filter (\<lambda>ip. subnet_id ip = Some (s_id (st_subnet st))) (ip_addresses db))"
    using t sub by simp
  show "st_used_ips st =
      count_status Used
        (filter (\<lambda>ip. subnet_id ip = Some (s_id (st_subnet st))) (ip_addresses db))"
    using u sub by simp
  show r: "st_usage_rate st =
      (if st_total_ips st = 0 then 0
       else float_mul (py_truediv (st_used_ips st) (st_total_ips st)) 100)"
    unfolding t u unfolding st by (rule stats_row_usage_rate)
  show "\<bar>st_usage_rate st - spec_usage_rate (st_used_ips st) (st_total_ips st)\<bar>
      \<le> spec_usage_rate (st_used_ips st) (st_total_ips st) / 2 ^ 51"
    unfolding r by (rule usage_error_spec)
  show "st_status st = spec_status (st_used_ips st) (st_total_ips st)"
    unfolding t u unfolding st by (rule stats_row_status [OF bound])
next
  show "g_total (get_statistics db) = length (ip_addresses db)"
    by (simp add: get_statistics_def Let_def)
  show "g_used (get_statistics db) = count_status Used (ip_addresses db)"
    by (simp add: get_statistics_def Let_def)
  show r: "g_usage_rate (get_statistics db) =
      (if g_total (get_statistics db) = 0 then 0
       else float_mul (py_truediv (g_used (get_statistics db))
              (g_total (get_statistics db))) 100)"
    by (simp add: get_statistics_def Let_def)
  show "\<bar>g_usage_rate (get_statistics db) -
      spec_usage_rate (g_used (get_statistics db)) (g_total (get_statistics db))\<bar>
      \<le> spec_usage_rate (g_used (get_statistics db)) (g_total (get_statistics db)) / 2 ^ 51"
    unfolding r by (rule usage_error_spec)
  show "HIGH_USAGE_THRESHOLD = 80" by (simp add: HIGH_USAGE_THRESHOLD_def)
  show "MEDIUM_USAGE_THRESHOLD = 60" by (simp add: MEDIUM_USAGE_THRESHOLD_def)
qed

theorem usage_rate_and_status_witness:
  "length (ip_addresses allocated_db) \<le> 2 ^ 32 \<and>
   map (\<lambda>st. (st_total_ips st, st_used_ips st)) (get_subnets_with_stats allocated_db) = [(4, 1)] \<and>
   map st_status (get_subnets_with_stats allocated_db) = [Normal] \<and>
   map st_status (get_subnets_with_stats example_db) = [Idle] \<and>
   g_usage_rate (get_statistics empty_database) = 0"
proof -
  have a: "length (ip_addresses allocated_db) \<le> 2 ^ 32" by code_simp
  have a': "length (ip_addresses example_db) \<le> 2 ^ 32" by code_simp
  have a'': "length (ip_addresses empty_database) \<le> 2 ^ 32" by code_simp
  have q: "map (\<lambda>(s, t, u, f, r). (t, u)) (select_subnets_with_counts allocated_db) = [(4, 1)]"
    by code_simp
  have q': "map (\<lambda>(s, t, u, f, r). (t, u)) (select_subnets_with_counts example_db) = [(4, 0)]"
    by code_simp
  have n: "spec_status 1 4 = Normal" by code_simp
  have i: "spec_status 0 4 = Idle" by code_simp
  have c: "map (\<lambda>st. (st_total_ips st, st_used_ips st)) (get_subnets_with_stats allocated_db) =
      [(4, 1)]"
    using q by (simp only: stats_counts_of_query)
  have c': "map (\<lambda>st. (st_total_ips st, st_used_ips st)) (get_subnets_with_stats example_db) =
      [(4, 0)]"
    using q' by (simp only: stats_counts_of_query)
  from c obtain st where st: "get_subnets_with_stats allocated_db = [st]"
    "st_total_ips st = 4" "st_used_ips st = 1"
    by (auto simp: map_eq_Cons_conv)
  from c' obtain st' where st': "get_subnets_with_stats example_db = [st']"
    "st_total_ips st' = 4" "st_used_ips st' = 0"
    by (auto simp: map_eq_Cons_conv)
  have 1: "st_status st = Normal"
    using usage_rate_and_status [OF a] st n by simp
  have 2: "st_status st' = Idle"
    using usage_rate_and_status [OF a'] st' i by simp
  have "g_total (get_statistics empty_database) = 0" by (simp add: get_statistics_def empty_database_def)
  then have 3: "g_usage_rate (get_statistics empty_database) = 0"
    using usage_rate_and_status [OF a''] by simp
  show ?thesis using a c 1 2 3 st st' by simp
qed

end
